theory Spec2Isabelle
  imports Complex_Main "HOL-Library.Sublist" "HOL-Library.Multiset"
begin

section \<open>Data model (types.ts)\<close>

text \<open>
  The matching engine \<open>reconcileTransactions\<close> works on arrays of \<open>Transaction\<close> objects.
  A JavaScript array holds references, two arrays may hold the same object, and the
  function splices arrays in place; the model therefore keeps an explicit heap:
  transaction records and transaction arrays both live at addresses.

  A JavaScript \<open>number\<close> is an IEEE 754 double. The field \<open>amount\<close> holds the real
  number that the double in it denotes (an amount is never \<open>NaN\<close> or infinite), and
  the one operation of the engine that rounds where it matters, the subtraction in
  \<open>Math.abs(ledgerTx.amount - bankTx.amount) < 0.01\<close>, is modelled with its rounding
  (\<open>fl\<close> below). The sums of the summary are modelled in exact arithmetic.

  A JavaScript string is a sequence of UTF-16 code units. The engine lowercases the
  descriptions, so \<open>description\<close> is a list of code units (natural numbers below
  65536); the identifiers, dates and notes, which it only compares, copies or hands to
  \<open>Date\<close>, are lists of 8-bit characters.
\<close>

datatype TransactionType = DEBIT | CREDIT

datatype Source = BANK | LEDGER

record Transaction =
  id_tx :: string
  date :: string
  description :: "nat list"
  amount :: real
  reference :: "string option"
  type :: TransactionType
  source :: Source

type_synonym ref = nat  \<comment> \<open>address of a \<open>Transaction\<close> object\<close>

type_synonym aref = nat  \<comment> \<open>address of a \<open>Transaction[]\<close> array\<close>

record MatchedTransaction =
  bankParams :: ref
  ledgerParams :: ref
  confidence :: real
  "notes" :: "string option"

record Summary =
  totalMatchedAmount :: real
  totalUnmatchedBankAmount :: real
  totalUnmatchedLedgerAmount :: real
  matchCount :: nat
  discrepancyCount :: nat

text \<open>
  The report holds the contents of the arrays \<open>matches\<close>, \<open>unmatchedBank\<close> and
  \<open>unmatchedLedger\<close> as they are when the function returns; their elements are
  references into the heap.
\<close>

record ReconciliationReport =
  matches :: "MatchedTransaction list"
  unmatchedBank :: "ref list"
  unmatchedLedger :: "ref list"
  summary :: Summary

record heap =
  objs :: "ref \<Rightarrow> Transaction"
  arrays :: "aref \<Rightarrow> ref list"
  nextArray :: aref  \<comment> \<open>every array address below it is allocated, none above\<close>

datatype error = TypeError  \<comment> \<open>what reading a property of \<open>undefined\<close> throws\<close>


section \<open>The JavaScript built-ins the engine calls\<close>

text \<open>\<open>Array.prototype.findIndex\<close>: the first index whose element satisfies the
  callback; \<open>None\<close> stands for the result \<open>-1\<close>.\<close>

fun findIndex :: "('a \<Rightarrow> bool) \<Rightarrow> 'a list \<Rightarrow> nat option" where
  "findIndex p [] = None"
| "findIndex p (x # xs) =
     (if p x then Some 0
      else (case findIndex p xs of None \<Rightarrow> None | Some k \<Rightarrow> Some (Suc k)))"

text \<open>\<open>arr.splice(i, 1)\<close>: removes the element at index \<open>i\<close>; nothing when \<open>i\<close> is
  past the end.\<close>

definition splice :: "nat \<Rightarrow> 'a list \<Rightarrow> 'a list" where
  "splice i xs = take i xs @ drop (Suc i) xs"

text \<open>A string literal of the source (all of them are ASCII) as code units.\<close>

definition utf16 :: "string \<Rightarrow> nat list" where
  "utf16 s = map of_char s"

text \<open>
  \<open>String.prototype.toLowerCase\<close>, the locale-independent Unicode lower-case mapping,
  by code unit. The ASCII capitals and the Latin-1 capitals (U+00C0 to U+00DE without the
  multiplication sign U+00D7) move up by 32. Two code points outside ASCII have a
  lower-case form with a code unit in \<open>[a-z0-9]\<close>: the capital I with dot above
  (U+0130) becomes \<open>i\<close> followed by the combining dot above (U+0307), and the Kelvin
  sign (U+212A) becomes \<open>k\<close>. Every other code point that the mapping changes has all
  code units of both its forms outside \<open>[a-z0-9]\<close>, also a code point above U+FFFF (a
  surrogate pair, whose lower-case form is a surrogate pair) and the capital sigma, whose
  form depends on its context; its code units are left as they are here, which
  \<open>normalize\<close>, the only reader of the lowercased string, cannot tell from the
  lower-case form: it deletes every code unit of either.
\<close>

definition toLowerCase_unit :: "nat \<Rightarrow> nat list" where
  "toLowerCase_unit c =
     (if (65 \<le> c \<and> c \<le> 90) \<or> (192 \<le> c \<and> c \<le> 222 \<and> c \<noteq> 215) then [c + 32]
      else if c = 304 then [105, 775]
      else if c = 8490 then [107]
      else [c])"

definition toLowerCase :: "nat list \<Rightarrow> nat list" where
  "toLowerCase str = concat (map toLowerCase_unit str)"

text \<open>The character class \<open>[a-z0-9]\<close>.\<close>

definition is_a_z_0_9 :: "nat \<Rightarrow> bool" where
  "is_a_z_0_9 c = ((97 \<le> c \<and> c \<le> 122) \<or> (48 \<le> c \<and> c \<le> 57))"

text \<open>\<open>const normalize = (str) => str.toLowerCase().replace(/[^a-z0-9]/g, '')\<close>\<close>

definition normalize_str :: "nat list \<Rightarrow> nat list" where
  "normalize_str str = filter is_a_z_0_9 (toLowerCase str)"

text \<open>\<open>s.includes(t)\<close>: \<open>t\<close> occurs in \<open>s\<close> as a contiguous run of code units.\<close>

fun includes_str :: "nat list \<Rightarrow> nat list \<Rightarrow> bool" where
  "includes_str [] t = (t = [])"
| "includes_str (c # s) t = (prefix t (c # s) \<or> includes_str s t)"

text \<open>
  \<open>new Date(s).getTime()\<close> for the date-only form \<open>YYYY-MM-DD\<close> of the ECMAScript
  date-time string format, which is the form the \<open>Transaction\<close> type documents for its
  \<open>date\<close> field: milliseconds since the epoch of midnight UTC of that day. \<open>None\<close>
  stands for \<open>NaN\<close> (an invalid date).

  The model covers the calendar dates in this form and nothing else: it maps every other
  string to \<open>None\<close>. \<open>Date\<close> itself accepts more: the other forms of the date-time
  format (a year alone, a date with a time), and, by parsing that the language leaves to
  the implementation, strings such as \<open>2024-3-15\<close> or the day 29 of a February without
  one. What is proved about the day difference of two dates is therefore stated for
  strings that \<open>parseDate\<close> accepts.
\<close>

definition digit :: "char \<Rightarrow> nat option" where
  "digit c =
     (let n = (of_char c :: nat) in if 48 \<le> n \<and> n \<le> 57 then Some (n - 48) else None)"

fun digits :: "string \<Rightarrow> nat \<Rightarrow> nat option" where
  "digits [] acc = Some acc"
| "digits (c # cs) acc =
     (case digit c of None \<Rightarrow> None | Some d \<Rightarrow> digits cs (10 * acc + d))"

definition InLeapYear :: "nat \<Rightarrow> bool" where
  "InLeapYear y = (y mod 4 = 0 \<and> (y mod 100 \<noteq> 0 \<or> y mod 400 = 0))"

definition DaysInMonth :: "nat \<Rightarrow> nat \<Rightarrow> nat" where
  "DaysInMonth y m =
     (if m = 2 then (if InLeapYear y then 29 else 28)
      else if m = 4 \<or> m = 6 \<or> m = 9 \<or> m = 11 then 30 else 31)"

definition DayFromYear :: "nat \<Rightarrow> int" where
  "DayFromYear y =
     365 * (int y - 1970) + (int y - 1969) div 4 - (int y - 1901) div 100
       + (int y - 1601) div 400"

definition MakeDay :: "nat \<Rightarrow> nat \<Rightarrow> nat \<Rightarrow> int" where
  "MakeDay y m d =
     DayFromYear y + int (sum_list (map (DaysInMonth y) [1 ..< m])) + int d - 1"

definition msPerDay :: int where
  "msPerDay = 1000 * 60 * 60 * 24"

definition parseDate :: "string \<Rightarrow> (nat \<times> nat \<times> nat) option" where
  "parseDate s =
     (if length s = 10 \<and> s ! 4 = CHR ''-'' \<and> s ! 7 = CHR ''-'' then
        (case (digits (take 4 s) 0, digits (take 2 (drop 5 s)) 0, digits (drop 8 s) 0) of
           (Some y, Some m, Some d) \<Rightarrow>
             if 1 \<le> m \<and> m \<le> 12 \<and> 1 \<le> d \<and> d \<le> DaysInMonth y m
             then Some (y, m, d) else None
         | _ \<Rightarrow> None)
      else None)"

definition Date_getTime :: "string \<Rightarrow> int option" where
  "Date_getTime s =
     (case parseDate s of None \<Rightarrow> None | Some (y, m, d) \<Rightarrow> Some (MakeDay y m d * msPerDay))"


section \<open>The matching engine (reconcileTransactions)\<close>

text \<open>\<open>[...xs]\<close>: a new array with the elements of the array at \<open>a\<close>.\<close>

definition copyArray :: "heap \<Rightarrow> aref \<Rightarrow> aref \<times> heap" where
  "copyArray h a =
     (nextArray h,
      h\<lparr>arrays := (arrays h)(nextArray h := arrays h a), nextArray := Suc (nextArray h)\<rparr>)"

text \<open>\<open>arr.splice(i, 1)\<close> on the array at address \<open>a\<close>.\<close>

definition spliceAt :: "heap \<Rightarrow> aref \<Rightarrow> nat \<Rightarrow> heap" where
  "spliceAt h a i = h\<lparr>arrays := (arrays h)(a := splice i (arrays h a))\<rparr>"

text \<open>
  Arithmetic on doubles. \<open>fl x\<close> is the real number \<open>x\<close> rounded to the nearest double,
  ties to the even significand: \<open>binade x\<close> is the exponent of the binade of \<open>x\<close> (that
  of the least normal binade for a subnormal \<open>x\<close>), \<open>ulp x\<close> the distance between
  neighbouring doubles there, and \<open>x\<close> is rounded to a multiple of it. The result of an
  operation of the language on two doubles is \<open>fl\<close> of the exact result; a decimal
  literal denotes \<open>fl\<close> of its value. Overflow is not modelled: where a double
  operation gives an infinity, \<open>fl\<close> gives a real number above the largest double,
  which a comparison with \<open>0.01\<close> treats alike.
\<close>

definition roundTiesToEven :: "real \<Rightarrow> int" where
  "roundTiesToEven y =
     (let n = \<lfloor>y\<rfloor>; r = y - of_int n
      in if r < 1/2 then n else if 1/2 < r then n + 1 else if even n then n else n + 1)"

definition binade :: "real \<Rightarrow> int" where
  "binade x = max \<lfloor>log 2 \<bar>x\<bar>\<rfloor> (- 1022)"

definition ulp :: "real \<Rightarrow> real" where
  "ulp x = 2 powr real_of_int (binade x - 52)"

definition fl :: "real \<Rightarrow> real" where
  "fl x = (if x = 0 then 0 else real_of_int (roundTiesToEven (x / ulp x)) * ulp x)"

text \<open>The three \<open>findIndex\<close> callbacks, reading the records through the heap.
  \<open>Math.abs(ledgerTx.amount - bankTx.amount) < 0.01\<close>: the difference is rounded,
  \<open>Math.abs\<close> is exact, and \<open>0.01\<close> is the double nearest to one hundredth.\<close>

definition amountMatch :: "(ref \<Rightarrow> Transaction) \<Rightarrow> ref \<Rightarrow> ref \<Rightarrow> bool" where
  "amountMatch os bankTx ledgerTx =
     (\<bar>fl (amount (os ledgerTx) - amount (os bankTx))\<bar> < fl 0.01)"

definition typeMatch :: "(ref \<Rightarrow> Transaction) \<Rightarrow> ref \<Rightarrow> ref \<Rightarrow> bool" where
  "typeMatch os bankTx ledgerTx = (type (os ledgerTx) = type (os bankTx))"

definition exactMatch :: "(ref \<Rightarrow> Transaction) \<Rightarrow> ref \<Rightarrow> ref \<Rightarrow> bool" where
  "exactMatch os bankTx ledgerTx =
     (amountMatch os bankTx ledgerTx \<and>
      date (os ledgerTx) = date (os bankTx) \<and>
      typeMatch os bankTx ledgerTx)"

text \<open>\<open>dayDiff <= 3\<close>, where \<open>dayDiff\<close> is \<open>NaN\<close> (and the comparison false) as soon as one
  of the two dates is invalid.\<close>

definition dayDiffLe3 :: "(ref \<Rightarrow> Transaction) \<Rightarrow> ref \<Rightarrow> ref \<Rightarrow> bool" where
  "dayDiffLe3 os bankTx ledgerTx =
     (case (Date_getTime (date (os bankTx)), Date_getTime (date (os ledgerTx))) of
        (Some d1, Some d2) \<Rightarrow> \<bar>real_of_int (d1 - d2) / real_of_int msPerDay\<bar> \<le> 3
      | _ \<Rightarrow> False)"

definition fuzzyMatch :: "(ref \<Rightarrow> Transaction) \<Rightarrow> ref \<Rightarrow> ref \<Rightarrow> bool" where
  "fuzzyMatch os bankTx ledgerTx =
     (amountMatch os bankTx ledgerTx \<and> typeMatch os bankTx ledgerTx \<and>
      dayDiffLe3 os bankTx ledgerTx)"

definition descSim :: "(ref \<Rightarrow> Transaction) \<Rightarrow> ref \<Rightarrow> ref \<Rightarrow> bool" where
  "descSim os bankTx ledgerTx =
     (includes_str (normalize_str (description (os bankTx)))
        (normalize_str (description (os ledgerTx))) \<or>
      includes_str (normalize_str (description (os ledgerTx)))
        (normalize_str (description (os bankTx))))"

definition descMatch :: "(ref \<Rightarrow> Transaction) \<Rightarrow> ref \<Rightarrow> ref \<Rightarrow> bool" where
  "descMatch os bankTx ledgerTx =
     (amountMatch os bankTx ledgerTx \<and> typeMatch os bankTx ledgerTx \<and>
      descSim os bankTx ledgerTx)"

text \<open>
  The body of the three loops, which differ in the callback, the confidence and the
  note only. \<open>ub\<close> and \<open>ul\<close> are the addresses of the arrays \<open>unmatchedBank\<close> and
  \<open>unmatchedLedger\<close>, \<open>ms\<close> is the array \<open>matches\<close>. Reading \<open>unmatchedBank[i]\<close> past
  the end gives \<open>undefined\<close>, and the callback then throws a \<open>TypeError\<close> at
  \<open>bankTx.amount\<close> as soon as \<open>findIndex\<close> calls it, that is, unless the ledger
  array is empty.
\<close>

definition matchStep ::
  "((ref \<Rightarrow> Transaction) \<Rightarrow> ref \<Rightarrow> ref \<Rightarrow> bool) \<Rightarrow> real \<Rightarrow> string \<Rightarrow> aref \<Rightarrow> aref \<Rightarrow> nat \<Rightarrow>
     heap \<times> MatchedTransaction list \<Rightarrow> error + heap \<times> MatchedTransaction list" where
  "matchStep crit conf note ub ul i s =
     (let h = fst s; ms = snd s in
      if i < length (arrays h ub) then
        (let bankTx = arrays h ub ! i in
         case findIndex (\<lambda>ledgerTx. crit (objs h) bankTx ledgerTx) (arrays h ul) of
           None \<Rightarrow> Inr (h, ms)
         | Some matchIndex \<Rightarrow>
             (let ledgerTx = arrays h ul ! matchIndex;
                  ms' = ms @ [\<lparr>bankParams = bankTx, ledgerParams = ledgerTx,
                               confidence = conf, notes = Some note\<rparr>];
                  h' = spliceAt h ub i;
                  h'' = spliceAt h' ul matchIndex
              in Inr (h'', ms')))
      else if arrays h ul = [] then Inr (h, ms)
      else Inl TypeError)"

text \<open>\<open>for (let i = ...; i >= 0; i--)\<close>: the first argument is \<open>i + 1\<close>, the number of
  indices still to visit.\<close>

fun matchLoop ::
  "((ref \<Rightarrow> Transaction) \<Rightarrow> ref \<Rightarrow> ref \<Rightarrow> bool) \<Rightarrow> real \<Rightarrow> string \<Rightarrow> aref \<Rightarrow> aref \<Rightarrow> nat \<Rightarrow>
     heap \<times> MatchedTransaction list \<Rightarrow> error + heap \<times> MatchedTransaction list" where
  "matchLoop crit conf note ub ul 0 s = Inr s"
| "matchLoop crit conf note ub ul (Suc i) s =
     (case matchStep crit conf note ub ul i s of
        Inl e \<Rightarrow> Inl e
      | Inr s' \<Rightarrow> matchLoop crit conf note ub ul i s')"

text \<open>A whole loop, from \<open>i = unmatchedBank.length - 1\<close>.\<close>

definition matchPass ::
  "((ref \<Rightarrow> Transaction) \<Rightarrow> ref \<Rightarrow> ref \<Rightarrow> bool) \<Rightarrow> real \<Rightarrow> string \<Rightarrow> aref \<Rightarrow> aref \<Rightarrow>
     heap \<times> MatchedTransaction list \<Rightarrow> error + heap \<times> MatchedTransaction list" where
  "matchPass crit conf note ub ul s =
     matchLoop crit conf note ub ul (length (arrays (fst s) ub)) s"

text \<open>The three loops of the function, in the order it runs them: the exact match pass,
  the fuzzy match pass and the amount match pass with similar descriptions.\<close>

definition pass1 ::
  "aref \<Rightarrow> aref \<Rightarrow> heap \<times> MatchedTransaction list \<Rightarrow> error + heap \<times> MatchedTransaction list" where
  "pass1 = matchPass exactMatch 1 ''Exact match on Date, Amount, and Type''"

definition pass2 ::
  "aref \<Rightarrow> aref \<Rightarrow> heap \<times> MatchedTransaction list \<Rightarrow> error + heap \<times> MatchedTransaction list" where
  "pass2 = matchPass fuzzyMatch 0.9 ''Match on Amount/Type within 3 days''"

definition pass3 ::
  "aref \<Rightarrow> aref \<Rightarrow> heap \<times> MatchedTransaction list \<Rightarrow> error + heap \<times> MatchedTransaction list" where
  "pass3 = matchPass descMatch 0.7 ''Match on Amount and similar Description''"

text \<open>The totals and the returned object. The three \<open>reduce\<close> calls add in exact
  arithmetic here; the rounding of each addition is not modelled.\<close>

definition makeReport ::
  "heap \<Rightarrow> MatchedTransaction list \<Rightarrow> ref list \<Rightarrow> ref list \<Rightarrow> ReconciliationReport" where
  "makeReport h ms ubs uls =
     \<lparr>matches = ms, unmatchedBank = ubs, unmatchedLedger = uls,
      summary =
        \<lparr>totalMatchedAmount = foldl (\<lambda>acc m. acc + amount (objs h (bankParams m))) 0 ms,
         totalUnmatchedBankAmount = foldl (\<lambda>acc t. acc + amount (objs h t)) 0 ubs,
         totalUnmatchedLedgerAmount = foldl (\<lambda>acc t. acc + amount (objs h t)) 0 uls,
         matchCount = length ms,
         discrepancyCount = length ubs + length uls\<rparr>\<rparr>"

definition reconcileTransactions ::
  "heap \<Rightarrow> aref \<Rightarrow> aref \<Rightarrow> error + heap \<times> ReconciliationReport" where
  "reconcileTransactions h0 bankTransactions ledgerTransactions =
     (let (ub, h1) = copyArray h0 bankTransactions;
          (ul, h2) = copyArray h1 ledgerTransactions
      in case pass1 ub ul (h2, []) of
           Inl e \<Rightarrow> Inl e
         | Inr s1 \<Rightarrow>
             (case pass2 ub ul s1 of
                Inl e \<Rightarrow> Inl e
              | Inr s2 \<Rightarrow>
                  (case pass3 ub ul s2 of
                     Inl e \<Rightarrow> Inl e
                   | Inr (h, ms) \<Rightarrow>
                       Inr (h, makeReport h ms (arrays h ub) (arrays h ul)))))"

section \<open>The passes as the specification words them\<close>

text \<open>
  One pass in the words of the specification: the bank transactions are taken in the
  given order (the callers give them last-to-first); each is paired with the first
  ledger transaction of the remaining pool that is eligible for it; on a hit the pair
  is emitted and both leave their pools; a bank transaction without a candidate is
  kept. The state is the matches found so far, the bank transactions kept, and the
  ledger pool.
\<close>

fun spec_pass ::
  "(ref \<Rightarrow> ref \<Rightarrow> bool) \<Rightarrow> real \<Rightarrow> string \<Rightarrow> ref list \<Rightarrow>
     MatchedTransaction list \<times> ref list \<times> ref list \<Rightarrow>
     MatchedTransaction list \<times> ref list \<times> ref list" where
  "spec_pass elig conf note [] st = st"
| "spec_pass elig conf note (b # bs) (ms, keep, pool) =
     (case find (elig b) pool of
        None \<Rightarrow> spec_pass elig conf note bs (ms, b # keep, pool)
      | Some l \<Rightarrow>
          spec_pass elig conf note bs
            (ms @ [\<lparr>bankParams = b, ledgerParams = l, confidence = conf, notes = Some note\<rparr>],
             keep, remove1 l pool))"

text \<open>The three passes in sequence, each over the pools the one before left.\<close>

definition spec_reconcile ::
  "(ref \<Rightarrow> Transaction) \<Rightarrow> ref list \<Rightarrow> ref list \<Rightarrow>
     MatchedTransaction list \<times> ref list \<times> ref list" where
  "spec_reconcile os bank ledger =
     (case spec_pass (exactMatch os) 1 ''Exact match on Date, Amount, and Type''
             (rev bank) ([], [], ledger) of
        (ms1, keep1, pool1) \<Rightarrow>
          (case spec_pass (fuzzyMatch os) 0.9 ''Match on Amount/Type within 3 days''
                  (rev keep1) (ms1, [], pool1) of
             (ms2, keep2, pool2) \<Rightarrow>
               spec_pass (descMatch os) 0.7 ''Match on Amount and similar Description''
                 (rev keep2) (ms2, [], pool2)))"

text \<open>An ASCII letter or digit, of either case.\<close>

definition is_ascii_letter_or_digit :: "nat \<Rightarrow> bool" where
  "is_ascii_letter_or_digit c =
     ((65 \<le> c \<and> c \<le> 90) \<or> (97 \<le> c \<and> c \<le> 122) \<or> (48 \<le> c \<and> c \<le> 57))"

text \<open>The heap \<open>h\<close> with the two pool arrays replaced, and the heap a call of
  \<open>reconcileTransactions\<close> leaves: \<open>h\<close> with the two pools as new arrays.\<close>

definition withPools :: "heap \<Rightarrow> aref \<Rightarrow> aref \<Rightarrow> ref list \<Rightarrow> ref list \<Rightarrow> heap" where
  "withPools h ub ul keep pool = h\<lparr>arrays := (arrays h)(ub := keep, ul := pool)\<rparr>"

definition poolsHeap :: "heap \<Rightarrow> ref list \<Rightarrow> ref list \<Rightarrow> heap" where
  "poolsHeap h keep pool =
     h\<lparr>arrays := (arrays h)(nextArray h := keep, Suc (nextArray h) := pool),
       nextArray := Suc (Suc (nextArray h))\<rparr>"


section \<open>Fixtures\<close>

text \<open>The sample data of the repository (\<open>SAMPLE_BANK_DATA\<close>, \<open>SAMPLE_LEDGER_DATA\<close>).
  The amounts are written as the source writes them. All of them are doubles but
  \<open>45.20\<close>, which is written for the double next to it; the fixtures compare it with
  itself and with amounts that are far from it only.\<close>

definition SAMPLE_BANK_DATA :: "Transaction list" where
  "SAMPLE_BANK_DATA =
    [\<lparr>id_tx = ''bank-1'', date = ''2024-03-01'',
      description = utf16 ''TechSolutions Inc - Inv #2024-001'', amount = 12500.00,
      reference = Some ''WIRE-998877'', type = CREDIT, source = BANK\<rparr>,
     \<lparr>id_tx = ''bank-2'', date = ''2024-03-03'', description = utf16 ''Office Depot - Supplies'',
      amount = 245.50, reference = None, type = DEBIT, source = BANK\<rparr>,
     \<lparr>id_tx = ''bank-3'', date = ''2024-03-05'', description = utf16 ''Uber Ride - Client Meeting'',
      amount = 45.20, reference = None, type = DEBIT, source = BANK\<rparr>,
     \<lparr>id_tx = ''bank-4'', date = ''2024-03-10'', description = utf16 ''Monthly Bank Service Fee'',
      amount = 35.00, reference = None, type = DEBIT, source = BANK\<rparr>,
     \<lparr>id_tx = ''bank-5'', date = ''2024-03-15'', description = utf16 ''Check Deposit - Client B'',
      amount = 4500.00, reference = Some ''CHK-1002'', type = CREDIT, source = BANK\<rparr>,
     \<lparr>id_tx = ''bank-6'', date = ''2024-03-20'', description = utf16 ''AWS Cloud Services'',
      amount = 890.00, reference = None, type = DEBIT, source = BANK\<rparr>]"

definition SAMPLE_LEDGER_DATA :: "Transaction list" where
  "SAMPLE_LEDGER_DATA =
    [\<lparr>id_tx = ''ledger-1'', date = ''2024-03-01'',
      description = utf16 ''TechSolutions Invoice Payment'', amount = 12500.00,
      reference = None, type = CREDIT, source = LEDGER\<rparr>,
     \<lparr>id_tx = ''ledger-2'', date = ''2024-03-03'', description = utf16 ''Office Supplies'',
      amount = 245.50, reference = None, type = DEBIT, source = LEDGER\<rparr>,
     \<lparr>id_tx = ''ledger-3'', date = ''2024-03-12'', description = utf16 ''Client B Payment (Check)'',
      amount = 4500.00, reference = None, type = CREDIT, source = LEDGER\<rparr>,
     \<lparr>id_tx = ''ledger-4'', date = ''2024-03-20'', description = utf16 ''Amazon Web Services'',
      amount = 890.00, reference = None, type = DEBIT, source = LEDGER\<rparr>,
     \<lparr>id_tx = ''ledger-5'', date = ''2024-03-25'', description = utf16 ''Software License Annual'',
      amount = 1200.00, reference = None, type = DEBIT, source = LEDGER\<rparr>]"

text \<open>The sample data on the heap: the bank records at the addresses 0 to 5, the ledger
  records at 6 to 10, the bank array at 0 and the ledger array at 1.\<close>

definition sampleHeap :: heap where
  "sampleHeap =
     \<lparr>objs = (\<lambda>r. (SAMPLE_BANK_DATA @ SAMPLE_LEDGER_DATA) ! r),
      arrays = (\<lambda>a. if a = 0 then [0, 1, 2, 3, 4, 5] else if a = 1 then [6, 7, 8, 9, 10] else []),
      nextArray = 2\<rparr>"

text \<open>The sample heap after Pass 1, the pools being the arrays 2 and 3.\<close>

definition sampleHeap1 :: heap where
  "sampleHeap1 = poolsHeap sampleHeap [2, 3, 4] [8, 10]"

text \<open>One bank transaction (the sample's \<open>bank-5\<close>, at address 0) and two ledger
  transactions within three days of it, the sample's \<open>ledger-3\<close> being the second.\<close>

definition greedyHeap :: heap where
  "greedyHeap =
     \<lparr>objs = (\<lambda>r.
        [\<lparr>id_tx = ''bank-5'', date = ''2024-03-15'', description = utf16 ''Check Deposit - Client B'',
          amount = 4500.00, reference = Some ''CHK-1002'', type = CREDIT, source = BANK\<rparr>,
         \<lparr>id_tx = ''ledger-0'', date = ''2024-03-14'', description = utf16 ''Client A Payment'',
          amount = 4500.00, reference = None, type = CREDIT, source = LEDGER\<rparr>,
         \<lparr>id_tx = ''ledger-3'', date = ''2024-03-12'', description = utf16 ''Client B Payment (Check)'',
          amount = 4500.00, reference = None, type = CREDIT, source = LEDGER\<rparr>] ! r),
      arrays = (\<lambda>a. if a = 0 then [0] else if a = 1 then [1, 2] else []),
      nextArray = 2\<rparr>"

text \<open>One bank transaction and two ledger candidates for it, the first within three days,
  the second on the same day.\<close>

definition precedenceHeap :: heap where
  "precedenceHeap =
     \<lparr>objs = (\<lambda>r.
        [\<lparr>id_tx = ''bank-6'', date = ''2024-03-20'', description = utf16 ''AWS Cloud Services'',
          amount = 890.00, reference = None, type = DEBIT, source = BANK\<rparr>,
         \<lparr>id_tx = ''ledger-a'', date = ''2024-03-19'', description = utf16 ''AWS'',
          amount = 890.00, reference = None, type = DEBIT, source = LEDGER\<rparr>,
         \<lparr>id_tx = ''ledger-4'', date = ''2024-03-20'', description = utf16 ''Amazon Web Services'',
          amount = 890.00, reference = None, type = DEBIT, source = LEDGER\<rparr>] ! r),
      arrays = (\<lambda>a. if a = 0 then [0] else if a = 1 then [1, 2] else []),
      nextArray = 2\<rparr>"

text \<open>One bank transaction and three ledger transactions of the same amount and type a
  month later: the first with an unrelated description, the second with a description that
  contains the bank's after normalisation, the third with a description of punctuation
  only.\<close>

definition descHeap :: heap where
  "descHeap =
     \<lparr>objs = (\<lambda>r.
        [\<lparr>id_tx = ''bank-3'', date = ''2024-03-05'', description = utf16 ''Uber Ride'',
          amount = 45.20, reference = None, type = DEBIT, source = BANK\<rparr>,
         \<lparr>id_tx = ''ledger-a'', date = ''2024-04-20'', description = utf16 ''Taxi'',
          amount = 45.20, reference = None, type = DEBIT, source = LEDGER\<rparr>,
         \<lparr>id_tx = ''ledger-b'', date = ''2024-04-20'', description = utf16 ''UBER-ride #7'',
          amount = 45.20, reference = None, type = DEBIT, source = LEDGER\<rparr>,
         \<lparr>id_tx = ''ledger-c'', date = ''2024-04-21'', description = utf16 ''---'',
          amount = 45.20, reference = None, type = DEBIT, source = LEDGER\<rparr>] ! r),
      arrays = (\<lambda>a. if a = 0 then [0] else if a = 1 then [1, 2, 3] else []),
      nextArray = 2\<rparr>"

text \<open>One bank transaction of 890.00 and one ledger transaction of the same day and type
  whose amount is the double that the literal \<open>890.01\<close> denotes: a cent more.\<close>

definition centHeap :: heap where
  "centHeap =
     \<lparr>objs = (\<lambda>r.
        [\<lparr>id_tx = ''bank-6'', date = ''2024-03-20'', description = utf16 ''AWS Cloud Services'',
          amount = 890.00, reference = None, type = DEBIT, source = BANK\<rparr>,
         \<lparr>id_tx = ''ledger-4'', date = ''2024-03-20'', description = utf16 ''Amazon Web Services'',
          amount = fl 890.01, reference = None, type = DEBIT, source = LEDGER\<rparr>] ! r),
      arrays = (\<lambda>a. if a = 0 then [0] else if a = 1 then [1] else []),
      nextArray = 2\<rparr>"

text \<open>One bank and one ledger transaction of the same day and type, the description of
  the second contained in that of the first, whose amounts are the doubles
  \<open>0.011953125000021415\<close> and \<open>0.0019531250000214156\<close>: they differ by less than 0.01,
  by so little less that the difference rounds to the double \<open>0.01\<close>.\<close>

definition windowHeap :: heap where
  "windowHeap =
     \<lparr>objs = (\<lambda>r.
        [\<lparr>id_tx = ''bank-w'', date = ''2024-03-20'', description = utf16 ''AWS Cloud Services'',
          amount = 1722626857472301 / 2 ^ 57, reference = None, type = DEBIT, source = BANK\<rparr>,
         \<lparr>id_tx = ''ledger-w'', date = ''2024-03-20'', description = utf16 ''AWS'',
          amount = 4503599627419877 / 2 ^ 61, reference = None, type = DEBIT,
          source = LEDGER\<rparr>] ! r),
      arrays = (\<lambda>a. if a = 0 then [0] else if a = 1 then [1] else []),
      nextArray = 2\<rparr>"

text \<open>A heap with two empty arrays.\<close>

definition emptyHeap :: heap where
  "emptyHeap = \<lparr>objs = (\<lambda>r. SAMPLE_BANK_DATA ! 0), arrays = (\<lambda>a. []), nextArray = 2\<rparr>"

section \<open>Facts about the built-ins\<close>

lemma findIndex_Some:
  "findIndex p xs = Some j \<Longrightarrow> j < length xs \<and> p (xs ! j) \<and> (\<forall>k < j. \<not> p (xs ! k))"
proof (induction xs arbitrary: j)
  case Nil
  then show ?case by simp
next
  case (Cons x xs)
  show ?case
  proof (cases "p x")
    case True
    with Cons.prems show ?thesis by simp
  next
    case False
    with Cons.prems obtain k where k: "findIndex p xs = Some k" "j = Suc k"
      by (auto split: option.splits)
    from Cons.IH [OF k(1)] False k(2) show ?thesis
      by (auto simp: nth_Cons split: nat.splits)
  qed
qed

lemma findIndex_find: "find p xs = map_option ((!) xs) (findIndex p xs)"
  by (induction xs) (auto split: option.splits)

lemma splice_remove1: "findIndex p xs = Some j \<Longrightarrow> splice j xs = remove1 (xs ! j) xs"
proof (induction xs arbitrary: j)
  case Nil
  then show ?case by simp
next
  case (Cons x xs)
  show ?case
  proof (cases "p x")
    case True
    with Cons.prems show ?thesis by (simp add: splice_def)
  next
    case False
    with Cons.prems obtain k where k: "findIndex p xs = Some k" "j = Suc k"
      by (auto split: option.splits)
    from findIndex_Some [OF k(1)] False have "xs ! k \<noteq> x" by auto
    with Cons.IH [OF k(1)] k(2) show ?thesis
      by (simp add: splice_def)
  qed
qed

lemma find_Some_set: "find p xs = Some x \<Longrightarrow> x \<in> set xs \<and> p x"
  by (auto simp: find_Some_iff)

lemma find_first: "\<forall>x \<in> set pre. \<not> p x \<Longrightarrow> p l \<Longrightarrow> find p (pre @ l # post) = Some l"
  by (induction pre) auto

lemma subseq_trans: "subseq xs ys \<Longrightarrow> subseq ys zs \<Longrightarrow> subseq xs zs"
  by (rule subseq_order.order_trans)

lemma subseq_remove1: "subseq (remove1 x xs) xs"
  by (induction xs) auto

lemma subseq_set: "subseq xs ys \<Longrightarrow> set xs \<subseteq> set ys"
  by (auto dest: list_emb_set)

lemma subseq_rev: "subseq xs ys \<Longrightarrow> subseq (rev xs) (rev ys)"
proof (induction rule: list_emb.induct)
  case (list_emb_Nil ys)
  show ?case by simp
next
  case (list_emb_Cons xs ys y)
  then show ?case by (simp add: subseq_rev_drop_many)
next
  case (list_emb_Cons2 x y xs ys)
  then show ?case by (simp add: list_emb_append_mono)
qed


section \<open>Rounding to doubles\<close>

lemma roundTiesToEven_ge: "real_of_int n - 1/2 < y \<Longrightarrow> n \<le> roundTiesToEven y"
  unfolding roundTiesToEven_def Let_def by (auto; linarith)

lemma roundTiesToEven_le: "y < real_of_int n + 1/2 \<Longrightarrow> roundTiesToEven y \<le> n"
  unfolding roundTiesToEven_def Let_def by (auto; linarith)

text \<open>A tie goes to the even neighbour.\<close>

lemma roundTiesToEven_le_even:
  assumes "even n"
  shows "roundTiesToEven y \<le> n \<longleftrightarrow> y \<le> real_of_int n + 1/2"
proof -
  define f where "f = \<lfloor>y\<rfloor>"
  have b: "real_of_int f \<le> y" "y < real_of_int f + 1"
    unfolding f_def by linarith+
  have ne: "odd f \<Longrightarrow> f \<noteq> n" using assms by auto
  show ?thesis
    unfolding roundTiesToEven_def Let_def f_def [symmetric]
    using b ne by (auto; linarith)
qed

lemma roundTiesToEven_ge_even:
  assumes "even n"
  shows "n \<le> roundTiesToEven y \<longleftrightarrow> real_of_int n - 1/2 \<le> y"
proof -
  define f where "f = \<lfloor>y\<rfloor>"
  have b: "real_of_int f \<le> y" "y < real_of_int f + 1"
    unfolding f_def by linarith+
  have ne: "even f \<Longrightarrow> n \<noteq> f + 1" using assms by auto
  show ?thesis
    unfolding roundTiesToEven_def Let_def f_def [symmetric]
    using b ne by (auto; linarith)
qed

lemma abs_of_int_le: "r \<le> n \<Longrightarrow> - n \<le> r \<Longrightarrow> \<bar>real_of_int r\<bar> \<le> real_of_int n"
  by linarith

lemma of_int_le_abs: "n \<le> r \<or> r \<le> - n \<Longrightarrow> real_of_int n \<le> \<bar>real_of_int r\<bar>"
  by linarith

lemma fl_zero: "fl 0 = 0"
  by (simp add: fl_def)

text \<open>The binade of a number, from bounds on it.\<close>

lemma binade_eq:
  assumes "2 powr real_of_int e \<le> \<bar>x\<bar>" "\<bar>x\<bar> < 2 powr (real_of_int e + 1)" "- 1022 \<le> e"
  shows "binade x = e"
proof -
  have "0 < \<bar>x\<bar>" using assms(1) powr_gt_zero [of 2 "real_of_int e"] by linarith
  then have "\<lfloor>log 2 \<bar>x\<bar>\<rfloor> = e"
    using assms(1,2) by (simp add: floor_log_eq_powr_iff)
  with assms(3) show ?thesis by (simp add: binade_def)
qed

lemma fl_eval:
  assumes "2 powr real_of_int e \<le> \<bar>x\<bar>" "\<bar>x\<bar> < 2 powr (real_of_int e + 1)" "- 1022 \<le> e"
  shows "fl x = real_of_int (roundTiesToEven (x / 2 powr real_of_int (e - 52)))
                  * 2 powr real_of_int (e - 52)"
proof -
  have "0 < \<bar>x\<bar>" using assms(1) powr_gt_zero [of 2 "real_of_int e"] by linarith
  then have "x \<noteq> 0" by simp
  then show ?thesis by (simp add: fl_def ulp_def binade_eq [OF assms])
qed

text \<open>The double \<open>0.01\<close>: it lies above one hundredth.\<close>

lemma fl_cent: "fl (1/100) = 5764607523034235 / 2 ^ 59"
proof -
  have "fl (1/100) = real_of_int (roundTiesToEven ((1/100) / 2 powr real_of_int (- 7 - 52)))
                  * 2 powr real_of_int (- 7 - 52)"
    by (rule fl_eval) (simp_all add: powr_neg_numeral)
  also have "2 powr real_of_int (- 7 - 52) = 1 / 2 ^ 59"
    by (simp add: powr_neg_numeral)
  also have "roundTiesToEven ((1/100) / (1 / 2 ^ 59)) = 5764607523034235"
    by (simp add: roundTiesToEven_def Let_def)
  finally show ?thesis by simp
qed

lemma binade_bounds:
  assumes "x \<noteq> 0"
  shows "\<bar>x\<bar> < 2 powr (real_of_int (binade x) + 1)"
    and "- 1022 \<le> \<lfloor>log 2 \<bar>x\<bar>\<rfloor> \<Longrightarrow> 2 powr real_of_int (binade x) \<le> \<bar>x\<bar>"
proof -
  let ?e = "\<lfloor>log 2 \<bar>x\<bar>\<rfloor>"
  from assms have p: "0 < \<bar>x\<bar>" by simp
  have b: "2 powr real_of_int ?e \<le> \<bar>x\<bar>" "\<bar>x\<bar> < 2 powr (real_of_int ?e + 1)"
    using floor_log_eq_powr_iff [OF p, of 2 ?e] by simp_all
  have "?e \<le> binade x" by (simp add: binade_def)
  then have "2 powr (real_of_int ?e + 1) \<le> 2 powr (real_of_int (binade x) + 1)"
    by (simp add: powr_mono)
  with b(2) show "\<bar>x\<bar> < 2 powr (real_of_int (binade x) + 1)" by linarith
  assume "- 1022 \<le> ?e"
  then have "binade x = ?e" by (simp add: binade_def)
  with b(1) show "2 powr real_of_int (binade x) \<le> \<bar>x\<bar>" by simp
qed

lemma ulp_pos: "0 < ulp x"
  by (simp add: ulp_def)

lemma ulp_binade: "2 ^ 52 * ulp x = 2 powr real_of_int (binade x)"
proof -
  have "2 powr real_of_int (binade x) = 2 powr (52 + real_of_int (binade x - 52))"
    by simp
  also have "\<dots> = 2 powr 52 * 2 powr real_of_int (binade x - 52)"
    by (simp only: powr_add)
  finally show ?thesis by (simp add: ulp_def)
qed

text \<open>Rounding does not leave the closed binade.\<close>

lemma fl_abs_le:
  assumes "x \<noteq> 0"
  shows "\<bar>fl x\<bar> \<le> 2 powr (real_of_int (binade x) + 1)"
proof -
  let ?u = "ulp x"
  define y where "y = x / ulp x"
  have u: "0 < ?u" by (rule ulp_pos)
  have t: "2 powr (real_of_int (binade x) + 1) = 2 ^ 53 * ?u"
    using ulp_binade [of x] by (simp add: powr_add)
  have "\<bar>x\<bar> < 2 ^ 53 * ?u"
    using binade_bounds(1) [OF assms] unfolding t .
  then have "\<bar>y\<bar> < 2 ^ 53"
    using u unfolding y_def by (simp add: pos_divide_less_eq)
  then have "y < real_of_int (2 ^ 53) + 1/2" "real_of_int (- (2 ^ 53)) - 1/2 < y"
    by (simp_all add: abs_less_iff)
  then have "roundTiesToEven y \<le> 2 ^ 53" "- (2 ^ 53) \<le> roundTiesToEven y"
    using roundTiesToEven_le [of y "2 ^ 53"] roundTiesToEven_ge [of "- (2 ^ 53)" y] by blast+
  then have "\<bar>real_of_int (roundTiesToEven y)\<bar> \<le> real_of_int (2 ^ 53)"
    by (rule abs_of_int_le)
  then have "\<bar>real_of_int (roundTiesToEven y)\<bar> \<le> 2 ^ 53"
    by simp
  then have "\<bar>real_of_int (roundTiesToEven y)\<bar> * ?u \<le> 2 ^ 53 * ?u"
    using u by (simp add: mult_right_mono)
  then show ?thesis
    using assms u unfolding t y_def by (simp add: fl_def abs_mult)
qed

lemma fl_abs_ge:
  assumes "x \<noteq> 0" "- 1022 \<le> \<lfloor>log 2 \<bar>x\<bar>\<rfloor>"
  shows "2 powr real_of_int (binade x) \<le> \<bar>fl x\<bar>"
proof -
  let ?u = "ulp x"
  define y where "y = x / ulp x"
  have u: "0 < ?u" by (rule ulp_pos)
  have "2 ^ 52 * ?u \<le> \<bar>x\<bar>"
    using binade_bounds(2) [OF assms] unfolding ulp_binade .
  then have "2 ^ 52 \<le> \<bar>y\<bar>"
    using u unfolding y_def by (simp add: pos_le_divide_eq)
  then have "2 ^ 52 \<le> y \<or> y \<le> - (2 ^ 52)"
    by linarith
  then consider "real_of_int (2 ^ 52) - 1/2 < y" | "y < real_of_int (- (2 ^ 52)) + 1/2"
    by auto
  then have "2 ^ 52 \<le> roundTiesToEven y \<or> roundTiesToEven y \<le> - (2 ^ 52)"
    using roundTiesToEven_ge [of "2 ^ 52" y] roundTiesToEven_le [of y "- (2 ^ 52)"] by blast
  then have "real_of_int (2 ^ 52) \<le> \<bar>real_of_int (roundTiesToEven y)\<bar>"
    by (rule of_int_le_abs)
  then have "2 ^ 52 \<le> \<bar>real_of_int (roundTiesToEven y)\<bar>"
    by simp
  then have "2 ^ 52 * ?u \<le> \<bar>real_of_int (roundTiesToEven y)\<bar> * ?u"
    using u by (simp add: mult_right_mono)
  then show ?thesis
    using assms(1) u unfolding ulp_binade y_def by (simp add: fl_def abs_mult)
qed

text \<open>
  The comparison \<open>Math.abs(x) < 0.01\<close> of a rounded number in terms of the number
  itself. The double \<open>0.01\<close> is \<open>5764607523034235 / 2 ^ 59\<close>; the doubles next to it are
  \<open>2 ^ - 59\<close> apart, the one below it has an even significand, and so the numbers whose
  double lies below \<open>0.01\<close> are those up to the midpoint, half a unit below it.
\<close>

lemma fl_tolerance:
  "\<bar>fl x\<bar> < fl (1/100) \<longleftrightarrow> \<bar>x\<bar> \<le> 11529215046068469 / 2 ^ 60"
proof -
  have D: "fl (1/100) = 5764607523034235 / 2 ^ 59"
    by (rule fl_cent)
  consider "x = 0" | "x \<noteq> 0" "\<bar>x\<bar> < 1 / 128" | "1 / 128 \<le> \<bar>x\<bar>" "\<bar>x\<bar> < 1 / 64" | "1 / 64 \<le> \<bar>x\<bar>"
    by linarith
  then show ?thesis
  proof cases
    case 1
    then show ?thesis by (simp add: fl_cent fl_zero)
  next
    case 2
    let ?e = "\<lfloor>log 2 \<bar>x\<bar>\<rfloor>"
    from 2 have p: "0 < \<bar>x\<bar>" by simp
    have "2 powr real_of_int ?e \<le> \<bar>x\<bar>"
      using floor_log_eq_powr_iff [OF p, of 2 ?e] by simp
    also have "\<bar>x\<bar> < 2 powr real_of_int (- 7)"
      using 2 by (simp add: powr_neg_numeral)
    finally have "2 powr real_of_int ?e < 2 powr real_of_int (- 7)" .
    then have "real_of_int ?e < real_of_int (- 7)"
      by (rule powr_less_cancel) simp
    then have "?e < - 7" by (simp only: of_int_less_iff)
    then have "binade x + 1 \<le> - 7" unfolding binade_def by linarith
    then have "real_of_int (binade x) + 1 \<le> real_of_int (- 7)"
      by linarith
    then have "2 powr (real_of_int (binade x) + 1) \<le> 2 powr real_of_int (- 7)"
      by (rule powr_mono) simp
    with fl_abs_le [OF 2(1)] have "\<bar>fl x\<bar> \<le> 1 / 128"
      by (simp add: powr_neg_numeral)
    with 2 show ?thesis unfolding D by simp
  next
    case 3
    have b: "binade x = - 7"
      using 3 by (intro binade_eq) (simp_all add: powr_neg_numeral)
    have u: "ulp x = 1 / 2 ^ 59"
      by (simp add: ulp_def b powr_neg_numeral)
    from 3 have x: "x \<noteq> 0" by auto
    let ?r = "roundTiesToEven (x * 2 ^ 59)"
    have f: "fl x = real_of_int ?r / 2 ^ 59"
      using x by (simp add: fl_def u)
    have "\<bar>fl x\<bar> < fl (1/100) \<longleftrightarrow> \<bar>real_of_int ?r\<bar> < 5764607523034235"
      unfolding f D by (simp add: divide_less_cancel)
    also have "\<dots> \<longleftrightarrow> ?r \<le> 5764607523034234 \<and> - 5764607523034234 \<le> ?r"
      by linarith
    also have "\<dots> \<longleftrightarrow> x * 2 ^ 59 \<le> real_of_int 5764607523034234 + 1/2 \<and>
                        real_of_int (- 5764607523034234) - 1/2 \<le> x * 2 ^ 59"
      by (simp only: roundTiesToEven_le_even roundTiesToEven_ge_even even_numeral even_minus)
    also have "\<dots> \<longleftrightarrow> \<bar>x\<bar> \<le> 11529215046068469 / 2 ^ 60"
      by (simp add: abs_le_iff) linarith
    finally show ?thesis .
  next
    case 4
    let ?e = "\<lfloor>log 2 \<bar>x\<bar>\<rfloor>"
    from 4 have x: "x \<noteq> 0" and p: "0 < \<bar>x\<bar>" by auto
    have "2 powr real_of_int (- 6) \<le> \<bar>x\<bar>"
      using 4 by (simp add: powr_neg_numeral)
    also have "\<bar>x\<bar> < 2 powr (real_of_int ?e + 1)"
      using floor_log_eq_powr_iff [OF p, of 2 ?e] by simp
    finally have "2 powr real_of_int (- 6) < 2 powr real_of_int (?e + 1)"
      by simp
    then have "real_of_int (- 6) < real_of_int (?e + 1)"
      by (rule powr_less_cancel) simp
    then have "- 6 < ?e + 1" by (simp only: of_int_less_iff)
    then have e: "- 6 \<le> ?e" by simp
    then have b: "binade x = ?e" by (simp add: binade_def)
    from e have "real_of_int (- 6) \<le> real_of_int (binade x)"
      unfolding b by (simp only: of_int_le_iff)
    then have "2 powr real_of_int (- 6) \<le> 2 powr real_of_int (binade x)"
      by (rule powr_mono) simp
    moreover from e have "- 1022 \<le> ?e" by simp
    note fl_abs_ge [OF x this]
    ultimately have "1 / 64 \<le> \<bar>fl x\<bar>"
      by (simp add: powr_neg_numeral)
    with 4 show ?thesis unfolding D by simp
  qed
qed

text \<open>A double of magnitude at least \<open>1/64\<close> is a multiple of \<open>2 ^ - 58\<close>, and between
  two such multiples the bound of the comparison and one hundredth are the same bound.\<close>

lemma ulp_grid:
  assumes "- 6 \<le> binade x"
  shows "ulp x = 2 ^ nat (binade x + 6) / 2 ^ 58"
proof -
  have "real_of_int (binade x - 52) = real (nat (binade x + 6)) - 58"
    using assms by simp
  then have "ulp x = 2 powr (real (nat (binade x + 6)) - 58)"
    by (simp only: ulp_def)
  also have "\<dots> = 2 powr real (nat (binade x + 6)) / 2 powr 58"
    by (rule powr_diff)
  finally show ?thesis by (simp add: powr_realpow)
qed

lemma binade_large:
  assumes "1 / 64 \<le> \<bar>x\<bar>"
  shows "- 6 \<le> binade x"
proof -
  let ?e = "\<lfloor>log 2 \<bar>x\<bar>\<rfloor>"
  from assms have p: "0 < \<bar>x\<bar>" by auto
  have "2 powr real_of_int (- 6) \<le> \<bar>x\<bar>"
    using assms by (simp add: powr_neg_numeral)
  also have "\<bar>x\<bar> < 2 powr (real_of_int ?e + 1)"
    using floor_log_eq_powr_iff [OF p, of 2 ?e] by simp
  finally have "2 powr real_of_int (- 6) < 2 powr real_of_int (?e + 1)"
    by simp
  then have "real_of_int (- 6) < real_of_int (?e + 1)"
    by (rule powr_less_cancel) simp
  then have "- 6 < ?e + 1" by (simp only: of_int_less_iff)
  then show ?thesis unfolding binade_def by linarith
qed

lemma double_grid:
  assumes "fl x = x" "1 / 64 \<le> \<bar>x\<bar>"
  shows "\<exists>i :: int. x = real_of_int i / 2 ^ 58"
proof -
  from assms(2) have x: "x \<noteq> 0" by auto
  let ?r = "roundTiesToEven (x / ulp x)" and ?k = "nat (binade x + 6)"
  have "x = real_of_int ?r * ulp x"
    using assms(1) x by (simp add: fl_def)
  also have "\<dots> = real_of_int ?r * (2 ^ ?k / 2 ^ 58)"
    by (simp only: ulp_grid [OF binade_large [OF assms(2)]])
  also have "\<dots> = real_of_int (?r * 2 ^ ?k) / 2 ^ 58"
    by simp
  finally show ?thesis by blast
qed

lemma grid_tolerance:
  fixes i j :: int
  assumes "a = real_of_int i / 2 ^ 58" "b = real_of_int j / 2 ^ 58"
  shows "\<bar>a - b\<bar> < 1 / 100 \<longleftrightarrow> \<bar>a - b\<bar> \<le> 11529215046068469 / 2 ^ 60"
proof -
  define k where "k = \<bar>i - j\<bar>"
  have d: "\<bar>a - b\<bar> = real_of_int k / 2 ^ 58"
    unfolding assms k_def by (simp add: diff_divide_distrib [symmetric])
  have "\<bar>a - b\<bar> < 1 / 100 \<longleftrightarrow> real_of_int (k * 100) < real_of_int (2 ^ 58)"
    unfolding d by (simp add: field_simps)
  also have "\<dots> \<longleftrightarrow> k * 100 < 2 ^ 58"
    by (rule of_int_less_iff)
  also have "\<dots> \<longleftrightarrow> k * 4 \<le> 11529215046068469"
    by (simp, rule iffI; linarith)
  also have "\<dots> \<longleftrightarrow> real_of_int (k * 4) \<le> real_of_int 11529215046068469"
    by (rule of_int_le_iff [symmetric])
  also have "\<dots> \<longleftrightarrow> \<bar>a - b\<bar> \<le> 11529215046068469 / 2 ^ 60"
    unfolding d by (simp add: field_simps)
  finally show ?thesis .
qed

text \<open>Some doubles: the integers 890 and 4500, the double that the literal \<open>890.01\<close>
  denotes, and two amounts below two cents.\<close>

lemma fl_int_eval: "fl 890 = 890" "fl 4500 = 4500"
proof -
  have "fl 890 = real_of_int (roundTiesToEven (890 / 2 powr real_of_int (9 - 52)))
                  * 2 powr real_of_int (9 - 52)"
    by (rule fl_eval) simp_all
  also have "2 powr real_of_int (9 - 52) = 1 / 2 ^ 43"
    by (simp add: powr_neg_numeral)
  finally show "fl 890 = 890"
    by (simp add: roundTiesToEven_def Let_def)
  have "fl 4500 = real_of_int (roundTiesToEven (4500 / 2 powr real_of_int (12 - 52)))
                  * 2 powr real_of_int (12 - 52)"
    by (rule fl_eval) simp_all
  also have "2 powr real_of_int (12 - 52) = 1 / 2 ^ 40"
    by (simp add: powr_neg_numeral)
  finally show "fl 4500 = 4500"
    by (simp add: roundTiesToEven_def Let_def)
qed

lemma fl_cent_above: "fl 890.01 = 3914305375347671 / 2 ^ 42"
proof -
  have "fl 890.01 = real_of_int (roundTiesToEven (890.01 / 2 powr real_of_int (9 - 52)))
                  * 2 powr real_of_int (9 - 52)"
    by (rule fl_eval) simp_all
  also have "2 powr real_of_int (9 - 52) = 1 / 2 ^ 43"
    by (simp add: powr_neg_numeral)
  finally show ?thesis
    by (simp add: roundTiesToEven_def Let_def)
qed

lemma fl_window:
  "fl (1722626857472301 / 2 ^ 57) = 1722626857472301 / 2 ^ 57"
  "fl (4503599627419877 / 2 ^ 61) = 4503599627419877 / 2 ^ 61"
proof -
  have "fl (1722626857472301 / 2 ^ 57) =
      real_of_int (roundTiesToEven ((1722626857472301 / 2 ^ 57) / 2 powr real_of_int (- 7 - 52)))
                  * 2 powr real_of_int (- 7 - 52)"
    by (rule fl_eval) (simp_all add: powr_neg_numeral)
  also have "2 powr real_of_int (- 7 - 52) = 1 / 2 ^ 59"
    by (simp add: powr_neg_numeral)
  finally show "fl (1722626857472301 / 2 ^ 57) = 1722626857472301 / 2 ^ 57"
    by (simp add: roundTiesToEven_def Let_def)
  have "fl (4503599627419877 / 2 ^ 61) =
      real_of_int (roundTiesToEven ((4503599627419877 / 2 ^ 61) / 2 powr real_of_int (- 9 - 52)))
                  * 2 powr real_of_int (- 9 - 52)"
    by (rule fl_eval) (simp_all add: powr_neg_numeral)
  also have "2 powr real_of_int (- 9 - 52) = 1 / 2 ^ 61"
    by (simp add: powr_neg_numeral)
  finally show "fl (4503599627419877 / 2 ^ 61) = 4503599627419877 / 2 ^ 61"
    by (simp add: roundTiesToEven_def Let_def)
qed


text \<open>The amount test of the three callbacks, in terms of the two amounts.\<close>

lemma amountMatch_iff:
  "amountMatch os b l \<longleftrightarrow> \<bar>amount (os l) - amount (os b)\<bar> \<le> 11529215046068469 / 2 ^ 60"
  using fl_tolerance [of "amount (os l) - amount (os b)"] by (simp add: amountMatch_def)

lemma amountMatch_tolerance:
  assumes "amountMatch os b l"
  shows "\<bar>amount (os l) - amount (os b)\<bar> < 0.01"
proof -
  have "(11529215046068469 / 2 ^ 60 :: real) < 0.01" by simp
  with assms show ?thesis unfolding amountMatch_iff by (rule le_less_trans)
qed

lemma amountMatch_doubles:
  assumes "fl (amount (os l)) = amount (os l)" "1 / 64 \<le> amount (os l)"
    and "fl (amount (os b)) = amount (os b)" "1 / 64 \<le> amount (os b)"
  shows "amountMatch os b l \<longleftrightarrow> \<bar>amount (os l) - amount (os b)\<bar> < 0.01"
proof -
  from assms(2,4) have "1 / 64 \<le> \<bar>amount (os l)\<bar>" "1 / 64 \<le> \<bar>amount (os b)\<bar>"
    by simp_all
  with assms(1,3) obtain i j :: int
    where "amount (os l) = real_of_int i / 2 ^ 58" "amount (os b) = real_of_int j / 2 ^ 58"
    using double_grid by blast
  from grid_tolerance [OF this] show ?thesis
    unfolding amountMatch_iff by simp
qed


section \<open>The loops against the specification's passes\<close>

lemma withPools_sel [simp]:
  "objs (withPools h ub ul X Y) = objs h"
  "nextArray (withPools h ub ul X Y) = nextArray h"
  "arrays (withPools h ub ul X Y) ul = Y"
  "ub \<noteq> ul \<Longrightarrow> arrays (withPools h ub ul X Y) ub = X"
  "a \<noteq> ub \<Longrightarrow> a \<noteq> ul \<Longrightarrow> arrays (withPools h ub ul X Y) a = arrays h a"
  by (simp_all add: withPools_def)

lemma withPools_twice [simp]:
  "withPools (withPools h ub ul X Y) ub ul X' Y' = withPools h ub ul X' Y'"
  by (simp add: withPools_def fun_eq_iff)

lemma withPools_same [simp]: "withPools h ub ul (arrays h ub) (arrays h ul) = h"
  by (cases h) (simp add: withPools_def fun_eq_iff)

lemma poolsHeap_sel [simp]:
  "objs (poolsHeap h K P) = objs h"
  "nextArray (poolsHeap h K P) = Suc (Suc (nextArray h))"
  "arrays (poolsHeap h K P) (nextArray h) = K"
  "arrays (poolsHeap h K P) (Suc (nextArray h)) = P"
  "a < nextArray h \<Longrightarrow> arrays (poolsHeap h K P) a = arrays h a"
  by (simp_all add: poolsHeap_def)

lemma withPools_poolsHeap [simp]:
  "withPools (poolsHeap h K P) (nextArray h) (Suc (nextArray h)) K' P' = poolsHeap h K' P'"
  by (simp add: withPools_def poolsHeap_def fun_eq_iff)

lemma withPools_copies:
  "withPools (snd (copyArray (snd (copyArray h b)) l)) (nextArray h) (Suc (nextArray h)) K P
     = poolsHeap h K P"
  by (simp add: withPools_def copyArray_def poolsHeap_def fun_eq_iff)

text \<open>An iteration that finds no candidate changes nothing.\<close>

lemma matchStep_miss:
  assumes "i < length (arrays h ub)"
    and "find (crit (objs h) (arrays h ub ! i)) (arrays h ul) = None"
  shows "matchStep crit conf note ub ul i (h, ms) = Inr (h, ms)"
  using assms by (simp add: matchStep_def findIndex_find)

text \<open>An iteration that finds a candidate emits the pair and splices both arrays; the
  ledger index spliced out is that of the first occurrence of the candidate.\<close>

lemma matchStep_hit:
  assumes "ub \<noteq> ul" "i < length (arrays h ub)"
    and "find (crit (objs h) (arrays h ub ! i)) (arrays h ul) = Some l"
  shows "matchStep crit conf note ub ul i (h, ms) =
           Inr (withPools h ub ul (splice i (arrays h ub)) (remove1 l (arrays h ul)),
                ms @ [\<lparr>bankParams = arrays h ub ! i, ledgerParams = l,
                        confidence = conf, notes = Some note\<rparr>])"
proof -
  from assms(3) obtain j
    where j: "findIndex (crit (objs h) (arrays h ub ! i)) (arrays h ul) = Some j"
      and l: "l = arrays h ul ! j"
    by (auto simp: findIndex_find)
  from splice_remove1 [OF j] l have "splice j (arrays h ul) = remove1 l (arrays h ul)"
    by simp
  with assms(1,2) j l show ?thesis
    by (simp add: matchStep_def spliceAt_def Let_def fun_upd_twist withPools_def)
qed

text \<open>
  The loop invariant: with \<open>k\<close> indices still to visit, the bank array is the
  unvisited prefix followed by the transactions kept so far, and the loop finishes as
  the specification's pass over the unvisited prefix reversed. The index read is always
  in range, so the loop never throws.
\<close>

lemma matchLoop_spec:
  assumes "ub \<noteq> ul" "k \<le> length (arrays h ub)"
  shows "matchLoop crit conf note ub ul k (h, ms) =
           (case spec_pass (crit (objs h)) conf note (rev (take k (arrays h ub)))
                   (ms, drop k (arrays h ub), arrays h ul) of
              (ms', keep, pool) \<Rightarrow> Inr (withPools h ub ul keep pool, ms'))"
  using assms
proof (induction k arbitrary: h ms)
  case 0
  show ?case by simp
next
  case (Suc i)
  let ?B = "arrays h ub" and ?L = "arrays h ul"
  from Suc.prems have i: "i < length ?B" by simp
  have rv: "rev (take (Suc i) ?B) = ?B ! i # rev (take i ?B)"
    using i by (simp add: take_Suc_conv_app_nth)
  show ?case
  proof (cases "find (crit (objs h) (?B ! i)) ?L")
    case None
    have "drop i ?B = ?B ! i # drop (Suc i) ?B"
      using i by (simp add: Cons_nth_drop_Suc)
    moreover have "matchStep crit conf note ub ul i (h, ms) = Inr (h, ms)"
      using i None by (rule matchStep_miss)
    ultimately show ?thesis
      using None Suc.IH [of h ms] Suc.prems(1) i rv by simp
  next
    case (Some l)
    let ?h' = "withPools h ub ul (splice i ?B) (remove1 l ?L)"
    let ?ms' = "ms @ [\<lparr>bankParams = ?B ! i, ledgerParams = l,
                        confidence = conf, notes = Some note\<rparr>]"
    have st: "matchStep crit conf note ub ul i (h, ms) = Inr (?h', ?ms')"
      using Suc.prems(1) i Some by (rule matchStep_hit)
    have B': "arrays ?h' ub = splice i ?B" and L': "arrays ?h' ul = remove1 l ?L"
      using Suc.prems(1) by simp_all
    have tk: "take i (splice i ?B) = take i ?B"
      and dr: "drop i (splice i ?B) = drop (Suc i) ?B"
      using i by (simp_all add: splice_def)
    have len: "i \<le> length (arrays ?h' ub)"
      unfolding B' using i by (simp add: splice_def)
    have "matchLoop crit conf note ub ul (Suc i) (h, ms) =
            matchLoop crit conf note ub ul i (?h', ?ms')"
      by (simp add: st)
    also have "\<dots> = (case spec_pass (crit (objs h)) conf note (rev (take i ?B))
                   (?ms', drop (Suc i) ?B, remove1 l ?L) of
              (ms', keep, pool) \<Rightarrow> Inr (withPools h ub ul keep pool, ms'))"
      using Suc.IH [OF Suc.prems(1) len, of ?ms']
      by (simp add: B' L' tk dr split: prod.splits)
    finally show ?thesis
      using Some rv by simp
  qed
qed

lemma matchPass_spec:
  assumes "ub \<noteq> ul"
  shows "matchPass crit conf note ub ul (h, ms) =
           (case spec_pass (crit (objs h)) conf note (rev (arrays h ub)) (ms, [], arrays h ul) of
              (ms', keep, pool) \<Rightarrow> Inr (withPools h ub ul keep pool, ms'))"
  using matchLoop_spec [OF assms order_refl] by (simp add: matchPass_def)

lemma makeReport_objs:
  "objs h = objs h' \<Longrightarrow> makeReport h ms ubs uls = makeReport h' ms ubs uls"
  by (simp add: makeReport_def)

text \<open>The whole function: it returns, with the report of the specification's three
  passes, and leaves the two pools as the only new arrays.\<close>

lemma reconcile_spec:
  assumes "ledgerTransactions < nextArray h"
  shows "reconcileTransactions h bankTransactions ledgerTransactions =
           (case spec_reconcile (objs h) (arrays h bankTransactions)
                   (arrays h ledgerTransactions) of
              (ms, keep, pool) \<Rightarrow> Inr (poolsHeap h keep pool, makeReport h ms keep pool))"
proof -
  let ?n = "nextArray h"
  define h1 where "h1 = snd (copyArray h bankTransactions)"
  define h2 where "h2 = snd (copyArray h1 ledgerTransactions)"
  have ne: "?n \<noteq> Suc ?n" by simp
  have c1: "copyArray h bankTransactions = (?n, h1)"
    by (simp add: h1_def copyArray_def)
  have c2: "copyArray h1 ledgerTransactions = (Suc ?n, h2)"
    by (simp add: h2_def h1_def copyArray_def)
  have h2: "objs h2 = objs h" "arrays h2 ?n = arrays h bankTransactions"
    "arrays h2 (Suc ?n) = arrays h ledgerTransactions"
    using assms by (simp_all add: h2_def h1_def copyArray_def)
  have wp: "withPools h2 ?n (Suc ?n) K P = poolsHeap h K P" for K P
    unfolding h2_def h1_def by (rule withPools_copies)
  have ob: "objs (poolsHeap h K P) = objs h" for K P
    by simp
  show ?thesis
    unfolding reconcileTransactions_def c1 c2 prod.case Let_def pass1_def pass2_def pass3_def
      spec_reconcile_def
    by (simp add: matchPass_spec [OF ne] h2 wp ne makeReport_objs [OF ob] split: prod.splits)
qed


section \<open>Properties of the specification's passes\<close>

lemma spec_pass_acc:
  "spec_pass e c n bs (ms, keep, pool) =
     (case spec_pass e c n bs ([], [], pool) of (M, K, P) \<Rightarrow> (ms @ M, K @ keep, P))"
proof (induction bs arbitrary: ms keep pool)
  case Nil
  show ?case by simp
next
  case (Cons b bs)
  show ?case
  proof (cases "find (e b) pool")
    case None
    show ?thesis
      using Cons.IH [of ms "b # keep" pool] Cons.IH [of "[]" "[b]" pool] None
      by (simp split: prod.splits)
  next
    case (Some l)
    let ?m = "\<lparr>bankParams = b, ledgerParams = l, confidence = c, notes = Some n\<rparr>"
    show ?thesis
      using Cons.IH [of "ms @ [?m]" keep "remove1 l pool"]
        Cons.IH [of "[?m]" "[]" "remove1 l pool"] Some
      by (simp split: prod.splits)
  qed
qed

lemma spec_pass_Cons_miss:
  assumes "find (e b) pool = None" "spec_pass e c n bs ([], [], pool) = (M, K, P)"
  shows "spec_pass e c n (b # bs) ([], [], pool) = (M, K @ [b], P)"
  using assms spec_pass_acc [of e c n bs "[]" "[b]" pool] by simp

lemma spec_pass_Cons_hit:
  assumes "find (e b) pool = Some l"
    and "spec_pass e c n bs ([], [], remove1 l pool) = (M, K, P)"
  shows "spec_pass e c n (b # bs) ([], [], pool) =
           (\<lparr>bankParams = b, ledgerParams = l, confidence = c, notes = Some n\<rparr> # M, K, P)"
  using assms
    spec_pass_acc [of e c n bs
      "[\<lparr>bankParams = b, ledgerParams = l, confidence = c, notes = Some n\<rparr>]"
      "[]" "remove1 l pool"]
  by simp

text \<open>
  What one pass guarantees, from empty accumulators: the matched bank sides follow the
  processing order, the kept ones are in the opposite (original) order, the ledger pool
  keeps its order; both sides are partitioned; every pair is eligible and carries the
  pass's confidence and note; and no kept bank transaction has a candidate left.
\<close>

lemma spec_pass_props:
  assumes "spec_pass e c n bs ([], [], pool) = (M, K, P)"
  shows "subseq (map bankParams M) bs \<and> subseq (rev K) bs \<and> subseq P pool \<and>
         mset (map bankParams M) + mset K = mset bs \<and>
         mset (map ledgerParams M) + mset P = mset pool \<and>
         (\<forall>m \<in> set M. confidence m = c \<and> notes m = Some n \<and>
                       e (bankParams m) (ledgerParams m)) \<and>
         (\<forall>b \<in> set K. \<forall>l \<in> set P. \<not> e b l)"
  using assms
proof (induction bs arbitrary: pool M K P)
  case Nil
  then show ?case by simp
next
  case (Cons b bs)
  show ?case
  proof (cases "find (e b) pool")
    case None
    obtain M' K' P' where r: "spec_pass e c n bs ([], [], pool) = (M', K', P')"
      by (cases "spec_pass e c n bs ([], [], pool)") auto
    from spec_pass_Cons_miss [OF None r] Cons.prems
    have eq: "M = M'" "K = K' @ [b]" "P = P'" by simp_all
    from None have nb: "\<forall>l \<in> set pool. \<not> e b l" by (simp add: find_None_iff)
    have sub: "set P' \<subseteq> set pool"
      using Cons.IH [OF r] by (simp add: subseq_set)
    from Cons.IH [OF r] nb sub show ?thesis
      unfolding eq by (auto simp: subseq_Cons')
  next
    case (Some l)
    obtain M' K' P' where r: "spec_pass e c n bs ([], [], remove1 l pool) = (M', K', P')"
      by (cases "spec_pass e c n bs ([], [], remove1 l pool)") auto
    from spec_pass_Cons_hit [OF Some r] Cons.prems
    have eq: "M = \<lparr>bankParams = b, ledgerParams = l, confidence = c, notes = Some n\<rparr> # M'"
      "K = K'" "P = P'" by simp_all
    from find_Some_set [OF Some] have l: "l \<in> set pool" "e b l" by simp_all
    have s1: "subseq (remove1 l pool) pool" by (rule subseq_remove1)
    have "subseq P' pool"
      using Cons.IH [OF r] s1 by (blast intro: subseq_trans)
    moreover have "mset (map ledgerParams M') + mset P' + {#l#} = mset pool"
      using Cons.IH [OF r] l(1) by simp
    ultimately show ?thesis
      using Cons.IH [OF r] l(2) unfolding eq by (auto simp: subseq_Cons')
  qed
qed

section \<open>The three passes together\<close>

text \<open>The three passes of the specification, each from empty accumulators.\<close>

lemma spec_reconcile_cases:
  obtains M1 K1 P1 M2 K2 P2 M3 K3 P3 where
    "spec_pass (exactMatch os) 1 ''Exact match on Date, Amount, and Type''
       (rev B) ([], [], L) = (M1, K1, P1)"
    "spec_pass (fuzzyMatch os) 0.9 ''Match on Amount/Type within 3 days''
       (rev K1) ([], [], P1) = (M2, K2, P2)"
    "spec_pass (descMatch os) 0.7 ''Match on Amount and similar Description''
       (rev K2) ([], [], P2) = (M3, K3, P3)"
    "spec_reconcile os B L = (M1 @ M2 @ M3, K3, P3)"
proof -
  obtain M1 K1 P1 where 1: "spec_pass (exactMatch os) 1 ''Exact match on Date, Amount, and Type''
       (rev B) ([], [], L) = (M1, K1, P1)"
    using prod_cases3 by blast
  obtain M2 K2 P2 where 2: "spec_pass (fuzzyMatch os) 0.9 ''Match on Amount/Type within 3 days''
       (rev K1) ([], [], P1) = (M2, K2, P2)"
    using prod_cases3 by blast
  obtain M3 K3 P3 where 3: "spec_pass (descMatch os) 0.7 ''Match on Amount and similar Description''
       (rev K2) ([], [], P2) = (M3, K3, P3)"
    using prod_cases3 by blast
  have "spec_pass (fuzzyMatch os) 0.9 ''Match on Amount/Type within 3 days''
       (rev K1) (M1, [], P1) = (M1 @ M2, K2, P2)"
    using spec_pass_acc [of "fuzzyMatch os" _ _ "rev K1" M1 "[]" P1] 2 by simp
  moreover have "spec_pass (descMatch os) 0.7 ''Match on Amount and similar Description''
       (rev K2) (M1 @ M2, [], P2) = (M1 @ M2 @ M3, K3, P3)"
    using spec_pass_acc [of "descMatch os" _ _ "rev K2" "M1 @ M2" "[]" P2] 3 by simp
  ultimately have "spec_reconcile os B L = (M1 @ M2 @ M3, K3, P3)"
    using 1 by (simp add: spec_reconcile_def)
  with 1 2 3 show ?thesis by (rule that)
qed

text \<open>Both sides keep their order and are partitioned by the three passes.\<close>

lemma spec_reconcile_pools:
  assumes "spec_reconcile os B L = (M, K, P)"
  shows "subseq K B" and "subseq P L"
    and "mset (map bankParams M) + mset K = mset B"
    and "mset (map ledgerParams M) + mset P = mset L"
proof -
  obtain M1 K1 P1 M2 K2 P2 M3 K3 P3 where
    1: "spec_pass (exactMatch os) 1 ''Exact match on Date, Amount, and Type''
       (rev B) ([], [], L) = (M1, K1, P1)" and
    2: "spec_pass (fuzzyMatch os) 0.9 ''Match on Amount/Type within 3 days''
       (rev K1) ([], [], P1) = (M2, K2, P2)" and
    3: "spec_pass (descMatch os) 0.7 ''Match on Amount and similar Description''
       (rev K2) ([], [], P2) = (M3, K3, P3)" and
    r: "spec_reconcile os B L = (M1 @ M2 @ M3, K3, P3)"
    by (rule spec_reconcile_cases)
  from r assms have eq: "M = M1 @ M2 @ M3" "K = K3" "P = P3" by simp_all
  note p1 = spec_pass_props [OF 1] and p2 = spec_pass_props [OF 2]
    and p3 = spec_pass_props [OF 3]
  have r1: "subseq (rev K1) (rev B)" and r2: "subseq (rev K2) (rev K1)"
    and r3: "subseq (rev K3) (rev K2)"
    using p1 p2 p3 by blast+
  have k1: "subseq K1 B" using subseq_rev [OF r1] by simp
  have k2: "subseq K2 K1" using subseq_rev [OF r2] by simp
  have k3: "subseq K3 K2" using subseq_rev [OF r3] by simp
  show "subseq K B"
    unfolding eq using k1 k2 k3 by (blast intro: subseq_trans)
  have "subseq P1 L" "subseq P2 P1" "subseq P3 P2" using p1 p2 p3 by blast+
  then show "subseq P L"
    unfolding eq by (blast intro: subseq_trans)
  show "mset (map bankParams M) + mset K = mset B"
  proof -
    have e3: "mset (map bankParams M3) + mset K3 = mset K2" using p3 by (simp only: mset_rev)
    have e2: "mset (map bankParams M2) + mset K2 = mset K1" using p2 by (simp only: mset_rev)
    have e1: "mset (map bankParams M1) + mset K1 = mset B" using p1 by (simp only: mset_rev)
    show ?thesis
      unfolding eq e1 [symmetric] e2 [symmetric] e3 [symmetric] by (simp add: ac_simps)
  qed
  show "mset (map ledgerParams M) + mset P = mset L"
  proof -
    have e3: "mset (map ledgerParams M3) + mset P3 = mset P2" using p3 by (simp only: mset_rev)
    have e2: "mset (map ledgerParams M2) + mset P2 = mset P1" using p2 by (simp only: mset_rev)
    have e1: "mset (map ledgerParams M1) + mset P1 = mset L" using p1 by (simp only: mset_rev)
    show ?thesis
      unfolding eq e1 [symmetric] e2 [symmetric] e3 [symmetric] by (simp add: ac_simps)
  qed
qed

text \<open>
  The matches are the pairs of Pass 1, then those of Pass 2, then those of Pass 3; each
  run follows the bank input backwards and its pairs carry the pass's confidence and note
  and satisfy its criterion. Pass 1 leaves no pair in the pools that satisfies its
  criterion, and the later pairs come from these pools.
\<close>

lemma spec_reconcile_split:
  assumes "spec_reconcile os B L = (M, K, P)"
  obtains M1 M2 M3 K1 P1 where
    "M = M1 @ M2 @ M3"
    "spec_pass (exactMatch os) 1 ''Exact match on Date, Amount, and Type''
       (rev B) ([], [], L) = (M1, K1, P1)"
    "subseq (map bankParams M1) (rev B)"
    "subseq (map bankParams M2) (rev B)"
    "subseq (map bankParams M3) (rev B)"
    "\<forall>m \<in> set M1. confidence m = 1 \<and>
       notes m = Some ''Exact match on Date, Amount, and Type'' \<and>
       exactMatch os (bankParams m) (ledgerParams m)"
    "\<forall>m \<in> set M2. confidence m = 0.9 \<and>
       notes m = Some ''Match on Amount/Type within 3 days'' \<and>
       fuzzyMatch os (bankParams m) (ledgerParams m)"
    "\<forall>m \<in> set M3. confidence m = 0.7 \<and>
       notes m = Some ''Match on Amount and similar Description'' \<and>
       descMatch os (bankParams m) (ledgerParams m)"
    "\<forall>b \<in> set K1. \<forall>l \<in> set P1. \<not> exactMatch os b l"
    "\<forall>m \<in> set (M2 @ M3). bankParams m \<in> set K1 \<and> ledgerParams m \<in> set P1"
proof -
  obtain M1 K1 P1 M2 K2 P2 M3 K3 P3 where
    1: "spec_pass (exactMatch os) 1 ''Exact match on Date, Amount, and Type''
       (rev B) ([], [], L) = (M1, K1, P1)" and
    2: "spec_pass (fuzzyMatch os) 0.9 ''Match on Amount/Type within 3 days''
       (rev K1) ([], [], P1) = (M2, K2, P2)" and
    3: "spec_pass (descMatch os) 0.7 ''Match on Amount and similar Description''
       (rev K2) ([], [], P2) = (M3, K3, P3)" and
    r: "spec_reconcile os B L = (M1 @ M2 @ M3, K3, P3)"
    by (rule spec_reconcile_cases)
  from r assms have eq: "M = M1 @ M2 @ M3" by simp
  note p1 = spec_pass_props [OF 1] and p2 = spec_pass_props [OF 2]
    and p3 = spec_pass_props [OF 3]
  have r1: "subseq (rev K1) (rev B)" and r2: "subseq (rev K2) (rev K1)"
    using p1 p2 by blast+
  have k2: "subseq K2 K1" using subseq_rev [OF r2] by simp
  have b1: "subseq (map bankParams M1) (rev B)"
    and b2: "subseq (map bankParams M2) (rev K1)"
    and b3: "subseq (map bankParams M3) (rev K2)"
    using p1 p2 p3 by blast+
  have s2: "subseq (map bankParams M2) (rev B)"
    using b2 r1 by (rule subseq_trans)
  have s3: "subseq (map bankParams M3) (rev B)"
    using b3 r2 r1 by (blast intro: subseq_trans)
  have e1: "\<forall>m \<in> set M1. confidence m = 1 \<and>
       notes m = Some ''Exact match on Date, Amount, and Type'' \<and>
       exactMatch os (bankParams m) (ledgerParams m)"
    using p1 by blast
  have e2: "\<forall>m \<in> set M2. confidence m = 0.9 \<and>
       notes m = Some ''Match on Amount/Type within 3 days'' \<and>
       fuzzyMatch os (bankParams m) (ledgerParams m)"
    using p2 by blast
  have e3: "\<forall>m \<in> set M3. confidence m = 0.7 \<and>
       notes m = Some ''Match on Amount and similar Description'' \<and>
       descMatch os (bankParams m) (ledgerParams m)"
    using p3 by blast
  have none: "\<forall>b \<in> set K1. \<forall>l \<in> set P1. \<not> exactMatch os b l"
    using p1 by blast
  have m2b: "mset (map bankParams M2) + mset K2 = mset K1"
    and m2l: "mset (map ledgerParams M2) + mset P2 = mset P1"
    and m3b: "mset (map bankParams M3) + mset K3 = mset K2"
    and m3l: "mset (map ledgerParams M3) + mset P3 = mset P2"
    using p2 p3 by (simp_all only: mset_rev)
  have sP: "subseq P2 P1" using p2 by blast
  have in2: "bankParams m \<in> set K1 \<and> ledgerParams m \<in> set P1" if "m \<in> set M2" for m
  proof -
    from m2b have "set (map bankParams M2 @ K2) = set K1"
      by (intro mset_eq_setD) simp
    moreover from m2l have "set (map ledgerParams M2 @ P2) = set P1"
      by (intro mset_eq_setD) simp
    ultimately show ?thesis using that by auto
  qed
  have in3: "bankParams m \<in> set K1 \<and> ledgerParams m \<in> set P1" if "m \<in> set M3" for m
  proof -
    from m3b have "set (map bankParams M3 @ K3) = set K2"
      by (intro mset_eq_setD) simp
    moreover from m3l have "set (map ledgerParams M3 @ P3) = set P2"
      by (intro mset_eq_setD) simp
    ultimately have "bankParams m \<in> set K2" "ledgerParams m \<in> set P2"
      using that by auto
    moreover have "set K2 \<subseteq> set K1" using k2 by (rule subseq_set)
    moreover have "set P2 \<subseteq> set P1" using sP by (rule subseq_set)
    ultimately show ?thesis by auto
  qed
  have later: "\<forall>m \<in> set (M2 @ M3). bankParams m \<in> set K1 \<and> ledgerParams m \<in> set P1"
    using in2 in3 by auto
  from eq 1 b1 s2 s3 e1 e2 e3 none later show ?thesis by (rule that)
qed

lemma reconcile_result:
  assumes "ledger < nextArray h"
  obtains M K P where
    "spec_reconcile (objs h) (arrays h bank) (arrays h ledger) = (M, K, P)"
    "reconcileTransactions h bank ledger = Inr (poolsHeap h K P, makeReport h M K P)"
proof -
  obtain M K P where s: "spec_reconcile (objs h) (arrays h bank) (arrays h ledger) = (M, K, P)"
    using prod_cases3 by blast
  with reconcile_spec [OF assms, of bank]
  have "reconcileTransactions h bank ledger = Inr (poolsHeap h K P, makeReport h M K P)"
    by simp
  with s show ?thesis by (rule that)
qed

lemma makeReport_sel [simp]:
  "matches (makeReport h M K P) = M"
  "unmatchedBank (makeReport h M K P) = K"
  "unmatchedLedger (makeReport h M K P) = P"
  "matchCount (summary (makeReport h M K P)) = length M"
  "discrepancyCount (summary (makeReport h M K P)) = length K + length P"
  by (simp_all add: makeReport_def)

lemma partition_distinct:
  assumes "mset as + mset us = mset xs" "distinct xs"
  shows "distinct as \<and> set as \<inter> set us = {} \<and> set as \<union> set us = set xs"
proof -
  from assms(1) have m: "mset (as @ us) = mset xs" by simp
  from mset_eq_imp_distinct_iff [OF m] assms(2) have "distinct (as @ us)" by simp
  moreover from mset_eq_setD [OF m] have "set (as @ us) = set xs" .
  ultimately show ?thesis by auto
qed

text \<open>The sample data: the three exact pairs, then \<open>bank-5\<close> with \<open>ledger-3\<close> three
  days apart; \<open>bank-3\<close>, \<open>bank-4\<close> and \<open>ledger-5\<close> stay unmatched.\<close>

lemma sample_spec:
  "spec_reconcile (objs sampleHeap) [0, 1, 2, 3, 4, 5] [6, 7, 8, 9, 10] =
     ([\<lparr>bankParams = 5, ledgerParams = 9, confidence = 1,
          notes = Some ''Exact match on Date, Amount, and Type''\<rparr>,
        \<lparr>bankParams = 1, ledgerParams = 7, confidence = 1,
          notes = Some ''Exact match on Date, Amount, and Type''\<rparr>,
        \<lparr>bankParams = 0, ledgerParams = 6, confidence = 1,
          notes = Some ''Exact match on Date, Amount, and Type''\<rparr>,
        \<lparr>bankParams = 4, ledgerParams = 8, confidence = 0.9,
          notes = Some ''Match on Amount/Type within 3 days''\<rparr>], [2, 3], [10])"
  by (simp add: spec_reconcile_def sampleHeap_def SAMPLE_BANK_DATA_def SAMPLE_LEDGER_DATA_def
      exactMatch_def amountMatch_iff typeMatch_def fuzzyMatch_def dayDiffLe3_def descMatch_def
      Date_getTime_def parseDate_def digit_def MakeDay_def DayFromYear_def DaysInMonth_def
      InLeapYear_def msPerDay_def upt_rec)

lemma sample_reconcile:
  "reconcileTransactions sampleHeap 0 1 =
     Inr (poolsHeap sampleHeap [2, 3] [10],
       \<lparr>matches =
         [\<lparr>bankParams = 5, ledgerParams = 9, confidence = 1,
            notes = Some ''Exact match on Date, Amount, and Type''\<rparr>,
          \<lparr>bankParams = 1, ledgerParams = 7, confidence = 1,
            notes = Some ''Exact match on Date, Amount, and Type''\<rparr>,
          \<lparr>bankParams = 0, ledgerParams = 6, confidence = 1,
            notes = Some ''Exact match on Date, Amount, and Type''\<rparr>,
          \<lparr>bankParams = 4, ledgerParams = 8, confidence = 0.9,
            notes = Some ''Match on Amount/Type within 3 days''\<rparr>],
        unmatchedBank = [2, 3], unmatchedLedger = [10],
        summary =
          \<lparr>totalMatchedAmount = 18135.5, totalUnmatchedBankAmount = 80.2,
           totalUnmatchedLedgerAmount = 1200, matchCount = 4, discrepancyCount = 3\<rparr>\<rparr>)"
proof -
  have a: "arrays sampleHeap 0 = [0, 1, 2, 3, 4, 5]" "arrays sampleHeap 1 = [6, 7, 8, 9, 10]"
    "(1::nat) < nextArray sampleHeap"
    by (simp_all add: sampleHeap_def)
  have mk: "makeReport sampleHeap
          [\<lparr>bankParams = 5, ledgerParams = 9, confidence = 1,
            notes = Some ''Exact match on Date, Amount, and Type''\<rparr>,
          \<lparr>bankParams = 1, ledgerParams = 7, confidence = 1,
            notes = Some ''Exact match on Date, Amount, and Type''\<rparr>,
          \<lparr>bankParams = 0, ledgerParams = 6, confidence = 1,
            notes = Some ''Exact match on Date, Amount, and Type''\<rparr>,
          \<lparr>bankParams = 4, ledgerParams = 8, confidence = 0.9,
            notes = Some ''Match on Amount/Type within 3 days''\<rparr>] [2, 3] [10] =
       \<lparr>matches =
         [\<lparr>bankParams = 5, ledgerParams = 9, confidence = 1,
            notes = Some ''Exact match on Date, Amount, and Type''\<rparr>,
          \<lparr>bankParams = 1, ledgerParams = 7, confidence = 1,
            notes = Some ''Exact match on Date, Amount, and Type''\<rparr>,
          \<lparr>bankParams = 0, ledgerParams = 6, confidence = 1,
            notes = Some ''Exact match on Date, Amount, and Type''\<rparr>,
          \<lparr>bankParams = 4, ledgerParams = 8, confidence = 0.9,
            notes = Some ''Match on Amount/Type within 3 days''\<rparr>],
        unmatchedBank = [2, 3], unmatchedLedger = [10],
        summary =
          \<lparr>totalMatchedAmount = 18135.5, totalUnmatchedBankAmount = 80.2,
           totalUnmatchedLedgerAmount = 1200, matchCount = 4, discrepancyCount = 3\<rparr>\<rparr>"
    by (simp add: makeReport_def sampleHeap_def SAMPLE_BANK_DATA_def SAMPLE_LEDGER_DATA_def)
  show ?thesis
    unfolding reconcile_spec [OF a(3), of 0] a(1,2) sample_spec prod.case mk ..
qed


section \<open>Lists, multisets and sums\<close>

lemma foldl_add: "foldl (\<lambda>acc t. acc + f t) a xs = a + sum_list (map f xs)" for a :: real
  by (induction xs arbitrary: a) simp_all

lemma sum_list_partition:
  fixes f :: "nat \<Rightarrow> real"
  assumes "mset as + mset us = mset xs"
  shows "sum_list (map f as) + sum_list (map f us) = sum_list (map f xs)"
proof -
  from assms have "image_mset f (mset (as @ us)) = image_mset f (mset xs)" by simp
  then have "sum_mset (mset (map f (as @ us))) = sum_mset (mset (map f xs))" by simp
  then have "sum_list (map f (as @ us)) = sum_list (map f xs)"
    by (simp only: sum_mset_sum_list)
  then show ?thesis by simp
qed

lemma amount_drift:
  fixes f g :: "'a \<Rightarrow> real"
  assumes "\<forall>m \<in> set M. \<bar>g m - f m\<bar> < 0.01"
  shows "\<bar>sum_list (map f M) - sum_list (map g M)\<bar> \<le> 0.01 * real (length M)"
  using assms
proof (induction M)
  case Nil
  show ?case by simp
next
  case (Cons m M)
  then have 1: "\<bar>g m - f m\<bar> < 0.01"
    and 2: "\<bar>sum_list (map f M) - sum_list (map g M)\<bar> \<le> 0.01 * real (length M)"
    by simp_all
  have "sum_list (map f (m # M)) - sum_list (map g (m # M))
          = (f m - g m) + (sum_list (map f M) - sum_list (map g M))"
    by simp
  also have "\<bar>\<dots>\<bar> \<le> \<bar>f m - g m\<bar> + \<bar>sum_list (map f M) - sum_list (map g M)\<bar>"
    by (rule abs_triangle_ineq)
  also have "\<bar>f m - g m\<bar> = \<bar>g m - f m\<bar>"
    by (rule abs_minus_commute)
  finally have "\<bar>sum_list (map f (m # M)) - sum_list (map g (m # M))\<bar>
                  \<le> 0.01 + 0.01 * real (length M)"
    using 1 2 by linarith
  also have "\<dots> = 0.01 * real (length (m # M))"
    by (simp add: algebra_simps)
  finally show ?case .
qed

lemma subseq_distinct_filter:
  "subseq ys xs \<Longrightarrow> distinct xs \<Longrightarrow> filter (\<lambda>x. x \<in> set ys) xs = ys"
proof (induction rule: list_emb.induct)
  case (list_emb_Nil ys)
  show ?case by simp
next
  case (list_emb_Cons xs ys y)
  from list_emb_Cons.hyps have "set xs \<subseteq> set ys" by (rule subseq_set)
  with list_emb_Cons show ?case by auto
next
  case (list_emb_Cons2 x y xs ys)
  then have "x \<notin> set ys" by simp
  then have "filter (\<lambda>z. z = x \<or> z \<in> set xs) ys = filter (\<lambda>z. z \<in> set xs) ys"
    by (intro filter_cong) auto
  with list_emb_Cons2 show ?case by simp
qed

lemma unmatched_filter:
  assumes "subseq us xs" "distinct xs" "mset as + mset us = mset xs"
  shows "us = filter (\<lambda>x. x \<notin> set as) xs"
proof -
  from partition_distinct [OF assms(3,2)]
  have "\<forall>x \<in> set xs. x \<notin> set as \<longleftrightarrow> x \<in> set us" by auto
  then have "filter (\<lambda>x. x \<notin> set as) xs = filter (\<lambda>x. x \<in> set us) xs"
    by (intro filter_cong) auto
  with subseq_distinct_filter [OF assms(1,2)] show ?thesis by simp
qed


section \<open>The three criteria\<close>

lemma exactMatch_iff:
  "exactMatch os b l \<longleftrightarrow>
     \<bar>amount (os l) - amount (os b)\<bar> \<le> 11529215046068469 / 2 ^ 60 \<and>
     date (os l) = date (os b) \<and> type (os l) = type (os b)"
  by (simp add: exactMatch_def amountMatch_iff typeMatch_def)

text \<open>\<open>includes\<close> is the contiguous-sublist relation.\<close>

lemma includes_str_sublist: "includes_str s t \<longleftrightarrow> sublist t s"
  by (induction s) (simp_all add: sublist_Cons_right)

text \<open>A lowercased string has no ASCII capital, so what \<open>normalize\<close> strips from it are
  the code units that are not ASCII letters or digits. On an ASCII string the two steps
  can be swapped: the ASCII letters and digits are kept, lowercased.\<close>

lemma lower_units:
  assumes "u \<in> set (toLowerCase_unit c)"
  shows "is_a_z_0_9 u \<longleftrightarrow> is_ascii_letter_or_digit u"
  using assms
  by (auto simp: toLowerCase_unit_def is_a_z_0_9_def is_ascii_letter_or_digit_def
      split: if_splits)

lemma normalize_str_strips:
  "normalize_str s = filter is_ascii_letter_or_digit (toLowerCase s)"
  unfolding normalize_str_def toLowerCase_def
  by (rule filter_cong [OF refl]) (auto simp: lower_units)

lemma lower_ascii:
  assumes "c < 128"
  shows "filter is_a_z_0_9 (toLowerCase_unit c) =
           (if is_ascii_letter_or_digit c then toLowerCase_unit c else [])"
  using assms
  by (auto simp: toLowerCase_unit_def is_a_z_0_9_def is_ascii_letter_or_digit_def)

lemma normalize_str_ascii:
  assumes "\<forall>c \<in> set s. c < 128"
  shows "normalize_str s = toLowerCase (filter is_ascii_letter_or_digit s)"
  using assms
  by (induction s) (simp_all add: normalize_str_def toLowerCase_def lower_ascii)

lemma descMatch_iff:
  "descMatch os b l \<longleftrightarrow>
     \<bar>amount (os l) - amount (os b)\<bar> \<le> 11529215046068469 / 2 ^ 60 \<and>
     type (os l) = type (os b) \<and>
     (sublist (normalize_str (description (os l))) (normalize_str (description (os b))) \<or>
      sublist (normalize_str (description (os b))) (normalize_str (description (os l))))"
  by (simp add: descMatch_def descSim_def amountMatch_iff typeMatch_def includes_str_sublist)

lemma desc_empty:
  assumes "normalize_str (description (os b)) = [] \<or> normalize_str (description (os l)) = []"
    and "\<bar>amount (os l) - amount (os b)\<bar> \<le> 11529215046068469 / 2 ^ 60"
    and "type (os l) = type (os b)"
  shows "descMatch os b l"
  using assms by (auto simp: descMatch_iff)

text \<open>For two calendar dates, the quotient of the time difference by the milliseconds of
  a day is the difference of the day numbers.\<close>

lemma dayDiff_days:
  assumes "parseDate (date (os b)) = Some (y1, m1, d1)"
    and "parseDate (date (os l)) = Some (y2, m2, d2)"
  shows "dayDiffLe3 os b l \<longleftrightarrow> \<bar>MakeDay y1 m1 d1 - MakeDay y2 m2 d2\<bar> \<le> 3"
proof -
  let ?D = "MakeDay y1 m1 d1 - MakeDay y2 m2 d2"
  have "MakeDay y1 m1 d1 * msPerDay - MakeDay y2 m2 d2 * msPerDay = ?D * msPerDay"
    by (simp add: algebra_simps)
  then have "real_of_int (MakeDay y1 m1 d1 * msPerDay - MakeDay y2 m2 d2 * msPerDay)
          / real_of_int msPerDay = real_of_int ?D"
    by (simp add: msPerDay_def)
  moreover have "\<bar>real_of_int ?D\<bar> \<le> 3 \<longleftrightarrow> \<bar>?D\<bar> \<le> 3"
    by linarith
  ultimately show ?thesis
    using assms by (simp add: dayDiffLe3_def Date_getTime_def)
qed

lemma fuzzyMatch_iff:
  assumes "parseDate (date (os b)) = Some (y1, m1, d1)"
    and "parseDate (date (os l)) = Some (y2, m2, d2)"
  shows "fuzzyMatch os b l \<longleftrightarrow>
           \<bar>amount (os l) - amount (os b)\<bar> \<le> 11529215046068469 / 2 ^ 60 \<and>
           type (os l) = type (os b) \<and> \<bar>MakeDay y1 m1 d1 - MakeDay y2 m2 d2\<bar> \<le> 3"
  by (simp add: fuzzyMatch_def amountMatch_iff typeMatch_def dayDiff_days [OF assms])

text \<open>The dates of the specification's scenario.\<close>

lemmas date_eval = parseDate_def digit_def MakeDay_def DayFromYear_def DaysInMonth_def
  InLeapYear_def upt_rec

lemma scenario_dates:
  "parseDate ''2024-03-15'' = Some (2024, 3, 15)" "parseDate ''2024-03-12'' = Some (2024, 3, 12)"
  "MakeDay 2024 3 15 = 19797" "MakeDay 2024 3 12 = 19794"
  by (simp_all add: date_eval)

lemma scenario_pair:
  assumes "amount (os b) = 4500" "date (os b) = ''2024-03-15''" "type (os b) = CREDIT"
    and "amount (os l) = 4500" "date (os l) = ''2024-03-12''" "type (os l) = CREDIT"
  shows "fuzzyMatch os b l" and "\<not> exactMatch os b l"
proof -
  have "parseDate (date (os b)) = Some (2024, 3, 15)" "parseDate (date (os l)) = Some (2024, 3, 12)"
    using assms by (simp_all add: scenario_dates)
  from fuzzyMatch_iff [OF this] assms show "fuzzyMatch os b l"
    by (simp add: scenario_dates)
  from assms show "\<not> exactMatch os b l"
    by (simp add: exactMatch_def)
qed


section \<open>Passes, iterations and the report\<close>

lemma pass_spec:
  assumes "ub \<noteq> ul"
  shows "matchPass crit conf note ub ul (h, ms) =
           (case spec_pass (crit (objs h)) conf note (rev (arrays h ub)) (ms, [], arrays h ul) of
              (ms', keep, pool) \<Rightarrow>
                Inr (h\<lparr>arrays := (arrays h)(ub := keep, ul := pool)\<rparr>, ms'))"
  using matchPass_spec [OF assms, of crit conf "note" h ms] by (simp add: withPools_def)

text \<open>Pass 1 leaves no pair in the pools that satisfies its criterion.\<close>

lemma pass1_leaves_no_pair:
  assumes "ub \<noteq> ul"
  shows "\<exists>g1 M1. pass1 ub ul (g, ms) = Inr (g1, ms @ M1) \<and>
           (\<forall>b \<in> set (arrays g1 ub). \<forall>l \<in> set (arrays g1 ul). \<not> exactMatch (objs g) b l)"
proof -
  let ?n = "''Exact match on Date, Amount, and Type''"
  obtain M K P where
    s: "spec_pass (exactMatch (objs g)) 1 ?n (rev (arrays g ub)) ([], [], arrays g ul) = (M, K, P)"
    using prod_cases3 by blast
  have "spec_pass (exactMatch (objs g)) 1 ?n (rev (arrays g ub)) (ms, [], arrays g ul)
          = (ms @ M, K, P)"
    using spec_pass_acc [of "exactMatch (objs g)" 1 ?n "rev (arrays g ub)" ms "[]" "arrays g ul"] s
    by simp
  then have p: "pass1 ub ul (g, ms) = Inr (withPools g ub ul K P, ms @ M)"
    unfolding pass1_def by (simp add: matchPass_spec [OF assms])
  have "\<forall>b \<in> set K. \<forall>l \<in> set P. \<not> exactMatch (objs g) b l"
    using spec_pass_props [OF s] by blast
  then have "\<forall>b \<in> set (arrays (withPools g ub ul K P) ub).
               \<forall>l \<in> set (arrays (withPools g ub ul K P) ul). \<not> exactMatch (objs g) b l"
    using assms by simp
  with p show ?thesis by blast
qed

text \<open>An iteration of Pass 1 claims its bank transaction as soon as the ledger pool holds
  a transaction that satisfies the criterion.\<close>

lemma exact_step_claims:
  assumes "ub \<noteq> ul" "i < length (arrays g ub)" "l \<in> set (arrays g ul)"
    and "exactMatch (objs g) (arrays g ub ! i) l"
  shows "\<exists>g' m. matchStep exactMatch 1 ''Exact match on Date, Amount, and Type'' ub ul i (g, ms)
             = Inr (g', ms @ [m]) \<and>
           bankParams m = arrays g ub ! i \<and> confidence m = 1 \<and>
           exactMatch (objs g) (bankParams m) (ledgerParams m) \<and>
           arrays g' ub = splice i (arrays g ub) \<and>
           arrays g' ul = remove1 (ledgerParams m) (arrays g ul)"
proof -
  let ?b = "arrays g ub ! i"
  from assms(3,4) have "find (exactMatch (objs g) ?b) (arrays g ul) \<noteq> None"
    by (auto simp: find_None_iff)
  then obtain l' where f: "find (exactMatch (objs g) ?b) (arrays g ul) = Some l'"
    by blast
  let ?m = "\<lparr>bankParams = ?b, ledgerParams = l', confidence = 1,
              notes = Some ''Exact match on Date, Amount, and Type''\<rparr>"
  let ?g' = "withPools g ub ul (splice i (arrays g ub)) (remove1 l' (arrays g ul))"
  have "matchStep exactMatch 1 ''Exact match on Date, Amount, and Type'' ub ul i (g, ms)
          = Inr (?g', ms @ [?m])"
    using assms(1,2) f by (rule matchStep_hit)
  moreover have "exactMatch (objs g) ?b l'"
    using find_Some_set [OF f] by simp
  moreover have "arrays ?g' ub = splice i (arrays g ub)"
    "arrays ?g' ul = remove1 l' (arrays g ul)"
    using assms(1) by simp_all
  ultimately show ?thesis
    by (intro exI [of _ ?g'] exI [of _ ?m]) simp
qed

text \<open>An iteration of Pass 2 pairs its bank transaction with a candidate that no other
  candidate precedes in the ledger pool.\<close>

lemma fuzzy_step_first:
  assumes "ub \<noteq> ul" "i < length (arrays h ub)"
    and "arrays h ul = pre @ l # post"
    and "\<forall>x \<in> set pre. \<not> fuzzyMatch (objs h) (arrays h ub ! i) x"
    and "fuzzyMatch (objs h) (arrays h ub ! i) l"
  shows "matchStep fuzzyMatch 0.9 ''Match on Amount/Type within 3 days'' ub ul i (h, ms) =
           Inr (h\<lparr>arrays := (arrays h)(ub := splice i (arrays h ub), ul := pre @ post)\<rparr>,
                ms @ [\<lparr>bankParams = arrays h ub ! i, ledgerParams = l, confidence = 0.9,
                        notes = Some ''Match on Amount/Type within 3 days''\<rparr>])"
proof -
  have f: "find (fuzzyMatch (objs h) (arrays h ub ! i)) (arrays h ul) = Some l"
    unfolding assms(3) using assms(4,5) by (rule find_first)
  have "l \<notin> set pre" using assms(4,5) by blast
  then have "remove1 l (arrays h ul) = pre @ post"
    unfolding assms(3) by (simp add: remove1_append)
  moreover have "matchStep fuzzyMatch 0.9 ''Match on Amount/Type within 3 days'' ub ul i (h, ms) =
      Inr (withPools h ub ul (splice i (arrays h ub)) (remove1 l (arrays h ul)),
           ms @ [\<lparr>bankParams = arrays h ub ! i, ledgerParams = l, confidence = 0.9,
                   notes = Some ''Match on Amount/Type within 3 days''\<rparr>])"
    using assms(1,2) f by (rule matchStep_hit)
  ultimately show ?thesis by (simp add: withPools_def)
qed

text \<open>The pairs after those of Pass 1 do not satisfy the criterion of Pass 1.\<close>

lemma later_not_exact:
  assumes "ledger < nextArray h"
  shows "\<exists>h' r M1 M23. reconcileTransactions h bank ledger = Inr (h', r) \<and>
           matches r = M1 @ M23 \<and>
           (\<forall>m \<in> set M1. confidence m = 1 \<and>
              exactMatch (objs h) (bankParams m) (ledgerParams m)) \<and>
           (\<forall>m \<in> set M23. (confidence m = 0.9 \<or> confidence m = 0.7) \<and>
              \<not> exactMatch (objs h) (bankParams m) (ledgerParams m))"
proof -
  obtain M K P where
    s: "spec_reconcile (objs h) (arrays h bank) (arrays h ledger) = (M, K, P)" and
    r: "reconcileTransactions h bank ledger = Inr (poolsHeap h K P, makeReport h M K P)"
    using assms by (rule reconcile_result)
  from s obtain M1 M2 M3 K1 P1 where M: "M = M1 @ M2 @ M3"
    and 1: "\<forall>m \<in> set M1. confidence m = 1 \<and>
       notes m = Some ''Exact match on Date, Amount, and Type'' \<and>
       exactMatch (objs h) (bankParams m) (ledgerParams m)"
    and 2: "\<forall>m \<in> set M2. confidence m = 0.9 \<and>
       notes m = Some ''Match on Amount/Type within 3 days'' \<and>
       fuzzyMatch (objs h) (bankParams m) (ledgerParams m)"
    and 3: "\<forall>m \<in> set M3. confidence m = 0.7 \<and>
       notes m = Some ''Match on Amount and similar Description'' \<and>
       descMatch (objs h) (bankParams m) (ledgerParams m)"
    and none: "\<forall>b \<in> set K1. \<forall>l \<in> set P1. \<not> exactMatch (objs h) b l"
    and later: "\<forall>m \<in> set (M2 @ M3). bankParams m \<in> set K1 \<and> ledgerParams m \<in> set P1"
    by (rule spec_reconcile_split)
  have c: "\<forall>m \<in> set (M2 @ M3). confidence m = 0.9 \<or> confidence m = 0.7"
    using 2 3 by auto
  have n: "\<forall>m \<in> set (M2 @ M3). \<not> exactMatch (objs h) (bankParams m) (ledgerParams m)"
    using none later by blast
  have "reconcileTransactions h bank ledger = Inr (poolsHeap h K P, makeReport h M K P) \<and>
           matches (makeReport h M K P) = M1 @ (M2 @ M3) \<and>
           (\<forall>m \<in> set M1. confidence m = 1 \<and>
              exactMatch (objs h) (bankParams m) (ledgerParams m)) \<and>
           (\<forall>m \<in> set (M2 @ M3). (confidence m = 0.9 \<or> confidence m = 0.7) \<and>
              \<not> exactMatch (objs h) (bankParams m) (ledgerParams m))"
    using r M 1 c n by simp
  then show ?thesis by blast
qed

lemma matches_amountMatch:
  assumes "spec_reconcile os B L = (M, K, P)" "m \<in> set M"
  shows "amountMatch os (bankParams m) (ledgerParams m)"
proof -
  from assms(1) obtain M1 M2 M3 where M: "M = M1 @ M2 @ M3"
    and 1: "\<forall>m \<in> set M1. confidence m = 1 \<and>
       notes m = Some ''Exact match on Date, Amount, and Type'' \<and>
       exactMatch os (bankParams m) (ledgerParams m)"
    and 2: "\<forall>m \<in> set M2. confidence m = 0.9 \<and>
       notes m = Some ''Match on Amount/Type within 3 days'' \<and>
       fuzzyMatch os (bankParams m) (ledgerParams m)"
    and 3: "\<forall>m \<in> set M3. confidence m = 0.7 \<and>
       notes m = Some ''Match on Amount and similar Description'' \<and>
       descMatch os (bankParams m) (ledgerParams m)"
    by (rule spec_reconcile_split)
  from assms(2) M consider "m \<in> set M1" | "m \<in> set M2" | "m \<in> set M3" by auto
  then show ?thesis
  proof cases
    case 1
    with \<open>\<forall>m \<in> set M1. _\<close> show ?thesis by (simp add: exactMatch_def)
  next
    case 2
    with \<open>\<forall>m \<in> set M2. _\<close> show ?thesis by (simp add: fuzzyMatch_def)
  next
    case 3
    with \<open>\<forall>m \<in> set M3. _\<close> show ?thesis by (simp add: descMatch_def)
  qed
qed

lemma makeReport_totals:
  "totalMatchedAmount (summary (makeReport h M K P))
     = sum_list (map (\<lambda>m. amount (objs h (bankParams m))) M)"
  "totalUnmatchedBankAmount (summary (makeReport h M K P))
     = sum_list (map (\<lambda>t. amount (objs h t)) K)"
  "totalUnmatchedLedgerAmount (summary (makeReport h M K P))
     = sum_list (map (\<lambda>t. amount (objs h t)) P)"
  by (simp_all add: makeReport_def foldl_add)


section \<open>The fixtures evaluated\<close>

lemmas crit_eval = exactMatch_def fuzzyMatch_def descMatch_def amountMatch_iff typeMatch_def
  dayDiffLe3_def Date_getTime_def msPerDay_def date_eval

lemmas norm_eval = normalize_str_def toLowerCase_def toLowerCase_unit_def is_a_z_0_9_def
  utf16_def

lemma sample_arrays:
  "arrays sampleHeap 0 = [0, 1, 2, 3, 4, 5]" "arrays sampleHeap 1 = [6, 7, 8, 9, 10]"
  "(0::nat) < nextArray sampleHeap" "(1::nat) < nextArray sampleHeap"
  by (simp_all add: sampleHeap_def)

lemma sample_pass1:
  "spec_pass (exactMatch (objs sampleHeap)) 1 ''Exact match on Date, Amount, and Type''
     (rev [0, 1, 2, 3, 4, 5]) ([], [], [6, 7, 8, 9, 10]) =
     ([\<lparr>bankParams = 5, ledgerParams = 9, confidence = 1,
         notes = Some ''Exact match on Date, Amount, and Type''\<rparr>,
       \<lparr>bankParams = 1, ledgerParams = 7, confidence = 1,
         notes = Some ''Exact match on Date, Amount, and Type''\<rparr>,
       \<lparr>bankParams = 0, ledgerParams = 6, confidence = 1,
         notes = Some ''Exact match on Date, Amount, and Type''\<rparr>], [2, 3, 4], [8, 10])"
  by (simp add: sampleHeap_def SAMPLE_BANK_DATA_def SAMPLE_LEDGER_DATA_def crit_eval)

lemma sample1_arrays:
  "arrays sampleHeap1 2 = [2, 3, 4]" "arrays sampleHeap1 3 = [8, 10]"
  "objs sampleHeap1 = objs sampleHeap"
proof -
  have n: "nextArray sampleHeap = 2" by (simp add: sampleHeap_def)
  show "arrays sampleHeap1 2 = [2, 3, 4]" "arrays sampleHeap1 3 = [8, 10]"
    "objs sampleHeap1 = objs sampleHeap"
    using poolsHeap_sel(3,4) [of sampleHeap "[2, 3, 4]" "[8, 10]"]
    unfolding n sampleHeap1_def by (simp_all add: numeral_3_eq_3 numeral_2_eq_2)
qed

lemma sample_objs:
  "amount (objs sampleHeap 4) = 4500" "date (objs sampleHeap 4) = ''2024-03-15''"
  "type (objs sampleHeap 4) = CREDIT"
  "amount (objs sampleHeap 8) = 4500" "date (objs sampleHeap 8) = ''2024-03-12''"
  "type (objs sampleHeap 8) = CREDIT"
  by (simp_all add: sampleHeap_def SAMPLE_BANK_DATA_def SAMPLE_LEDGER_DATA_def)

lemma sample_pass2:
  "spec_pass (fuzzyMatch (objs sampleHeap)) 0.9 ''Match on Amount/Type within 3 days''
     (rev [2, 3, 4]) ([], [], [8, 10]) =
     ([\<lparr>bankParams = 4, ledgerParams = 8, confidence = 0.9,
         notes = Some ''Match on Amount/Type within 3 days''\<rparr>], [2, 3], [10])"
  by (simp add: sampleHeap_def SAMPLE_BANK_DATA_def SAMPLE_LEDGER_DATA_def crit_eval)

lemma empty_arrays:
  "arrays emptyHeap 0 = []" "arrays emptyHeap 1 = []"
  "(0::nat) < nextArray emptyHeap" "(1::nat) < nextArray emptyHeap"
  by (simp_all add: emptyHeap_def)

lemma greedy_arrays:
  "arrays greedyHeap 0 = [0]" "arrays greedyHeap 1 = [1, 2]" "(1::nat) < nextArray greedyHeap"
  by (simp_all add: greedyHeap_def)

lemma greedy_pass1:
  "spec_pass (exactMatch (objs greedyHeap)) 1 ''Exact match on Date, Amount, and Type''
     (rev [0]) ([], [], [1, 2]) = ([], [0], [1, 2])"
  by (simp add: greedyHeap_def exactMatch_def)

lemma greedy_spec:
  "spec_reconcile (objs greedyHeap) [0] [1, 2] =
     ([\<lparr>bankParams = 0, ledgerParams = 1, confidence = 0.9,
         notes = Some ''Match on Amount/Type within 3 days''\<rparr>], [], [2])"
  by (simp add: spec_reconcile_def greedyHeap_def crit_eval)

lemma desc_arrays: "arrays descHeap 0 = [0]" "arrays descHeap 1 = [1, 2, 3]"
  by (simp_all add: descHeap_def)

lemma desc_norm:
  "normalize_str (description (objs descHeap 0)) = utf16 ''uberride''"
  "normalize_str (description (objs descHeap 1)) = utf16 ''taxi''"
  "normalize_str (description (objs descHeap 2)) = utf16 ''uberride7''"
  "normalize_str (description (objs descHeap 3)) = []"
  by (simp_all add: descHeap_def norm_eval)

lemma desc_crit:
  "\<not> descMatch (objs descHeap) 0 1" "descMatch (objs descHeap) 0 2"
  unfolding descMatch_def descSim_def desc_norm
  by (simp_all add: amountMatch_iff typeMatch_def descHeap_def utf16_def)

lemma desc_pass3:
  "spec_pass (descMatch (objs descHeap)) 0.7 ''Match on Amount and similar Description''
     (rev [0]) ([], [], [1, 2, 3]) =
     ([\<lparr>bankParams = 0, ledgerParams = 2, confidence = 0.7,
         notes = Some ''Match on Amount and similar Description''\<rparr>], [], [1, 3])"
  by (simp add: desc_crit del: One_nat_def)

lemma cent_arrays: "arrays centHeap 0 = [0]" "arrays centHeap 1 = [1]"
  by (simp_all add: centHeap_def)

lemma cent_objs:
  "amount (objs centHeap 0) = 890" "amount (objs centHeap 1) = 3914305375347671 / 2 ^ 42"
  "date (objs centHeap 0) = ''2024-03-20''" "date (objs centHeap 1) = ''2024-03-20''"
  "type (objs centHeap 0) = DEBIT" "type (objs centHeap 1) = DEBIT"
  using fl_cent_above by (simp_all add: centHeap_def)

lemma cent_crit: "exactMatch (objs centHeap) 0 1"
  unfolding exactMatch_iff cent_objs by simp

lemma cent_pass1:
  "spec_pass (exactMatch (objs centHeap)) 1 ''Exact match on Date, Amount, and Type''
     (rev [0]) ([], [], [1]) =
     ([\<lparr>bankParams = 0, ledgerParams = 1, confidence = 1,
         notes = Some ''Exact match on Date, Amount, and Type''\<rparr>], [], [])"
  by (simp add: cent_crit del: One_nat_def)

lemma window_arrays:
  "arrays windowHeap 0 = [0]" "arrays windowHeap 1 = [1]" "(1::nat) < nextArray windowHeap"
  by (simp_all add: windowHeap_def)

lemma window_objs:
  "amount (objs windowHeap 0) = 1722626857472301 / 2 ^ 57"
  "amount (objs windowHeap 1) = 4503599627419877 / 2 ^ 61"
  "date (objs windowHeap 0) = ''2024-03-20''" "date (objs windowHeap 1) = ''2024-03-20''"
  "type (objs windowHeap 0) = DEBIT" "type (objs windowHeap 1) = DEBIT"
  by (simp_all add: windowHeap_def)

lemma window_norm:
  "normalize_str (description (objs windowHeap 0)) = utf16 ''awscloudservices''"
  "normalize_str (description (objs windowHeap 1)) = utf16 ''aws''"
  by (simp_all add: windowHeap_def norm_eval)

lemma window_amounts: "\<not> amountMatch (objs windowHeap) 0 1"
  unfolding amountMatch_iff window_objs by simp

lemma window_crit:
  "\<not> exactMatch (objs windowHeap) 0 1" "\<not> fuzzyMatch (objs windowHeap) 0 1"
  "\<not> descMatch (objs windowHeap) 0 1"
  using window_amounts by (simp_all add: exactMatch_def fuzzyMatch_def descMatch_def)

lemma window_pass:
  "spec_pass (crit (objs windowHeap)) conf t (rev [0]) (ms, [], [1]) =
     (if crit (objs windowHeap) 0 1
      then (ms @ [\<lparr>bankParams = 0, ledgerParams = 1, confidence = conf, notes = Some t\<rparr>],
            [], [])
      else (ms, [0], [1]))"
  by (simp del: One_nat_def)

lemma window_spec: "spec_reconcile (objs windowHeap) [0] [1] = ([], [0], [1])"
  using window_pass [of exactMatch] window_pass [of fuzzyMatch] window_pass [of descMatch]
  by (simp add: spec_reconcile_def window_crit del: One_nat_def)

lemma window_reconcile:
  "reconcileTransactions windowHeap 0 1 =
     Inr (poolsHeap windowHeap [0] [1],
          \<lparr>matches = [], unmatchedBank = [0], unmatchedLedger = [1],
           summary = \<lparr>totalMatchedAmount = 0,
                      totalUnmatchedBankAmount = 1722626857472301 / 2 ^ 57,
                      totalUnmatchedLedgerAmount = 4503599627419877 / 2 ^ 61, matchCount = 0,
                      discrepancyCount = 2\<rparr>\<rparr>)"
proof -
  have mk: "makeReport windowHeap [] [0] [1] =
     \<lparr>matches = [], unmatchedBank = [0], unmatchedLedger = [1],
           summary = \<lparr>totalMatchedAmount = 0,
                      totalUnmatchedBankAmount = 1722626857472301 / 2 ^ 57,
                      totalUnmatchedLedgerAmount = 4503599627419877 / 2 ^ 61, matchCount = 0,
                      discrepancyCount = 2\<rparr>\<rparr>"
    unfolding makeReport_def by (simp add: window_objs del: One_nat_def)
  show ?thesis
    unfolding reconcile_spec [OF window_arrays(3), of 0] window_arrays(1,2) window_spec
      prod.case mk ..
qed

lemma precedence_arrays:
  "arrays precedenceHeap 0 = [0]" "arrays precedenceHeap 1 = [1, 2]"
  "(0::nat) < nextArray precedenceHeap" "(1::nat) < nextArray precedenceHeap"
  by (simp_all add: precedenceHeap_def)

lemma precedence_crit:
  "exactMatch (objs precedenceHeap) 0 2" "\<not> exactMatch (objs precedenceHeap) 0 1"
  "fuzzyMatch (objs precedenceHeap) 0 1"
  by (simp_all add: precedenceHeap_def crit_eval)

lemma precedence_spec:
  "spec_reconcile (objs precedenceHeap) [0] [1, 2] =
     ([\<lparr>bankParams = 0, ledgerParams = 2, confidence = 1,
         notes = Some ''Exact match on Date, Amount, and Type''\<rparr>], [], [1])"
  by (simp add: spec_reconcile_def precedence_crit del: One_nat_def)

lemma precedence_reconcile:
  "reconcileTransactions precedenceHeap 0 1 =
     Inr (poolsHeap precedenceHeap [] [1],
          \<lparr>matches = [\<lparr>bankParams = 0, ledgerParams = 2, confidence = 1,
                        notes = Some ''Exact match on Date, Amount, and Type''\<rparr>],
           unmatchedBank = [], unmatchedLedger = [1],
           summary = \<lparr>totalMatchedAmount = 890, totalUnmatchedBankAmount = 0,
                      totalUnmatchedLedgerAmount = 890, matchCount = 1,
                      discrepancyCount = 1\<rparr>\<rparr>)"
proof -
  have mk: "makeReport precedenceHeap
      [\<lparr>bankParams = 0, ledgerParams = 2, confidence = 1,
         notes = Some ''Exact match on Date, Amount, and Type''\<rparr>] [] [1] =
     \<lparr>matches = [\<lparr>bankParams = 0, ledgerParams = 2, confidence = 1,
                        notes = Some ''Exact match on Date, Amount, and Type''\<rparr>],
           unmatchedBank = [], unmatchedLedger = [1],
           summary = \<lparr>totalMatchedAmount = 890, totalUnmatchedBankAmount = 0,
                      totalUnmatchedLedgerAmount = 890, matchCount = 1,
                      discrepancyCount = 1\<rparr>\<rparr>"
    by (simp add: makeReport_def precedenceHeap_def)
  show ?thesis
    unfolding reconcile_spec [OF precedence_arrays(4), of 0] precedence_arrays(1,2)
      precedence_spec prod.case mk ..
qed


section \<open>Partition (C1)\<close>

text \<open>
  Claim C1. Every bank transaction of the input is, by identity, in exactly one of the
  matches (as the bank side) and \<open>unmatchedBank\<close>, and every ledger transaction in
  exactly one of the matches (as the ledger side) and \<open>unmatchedLedger\<close>. Counted with
  multiplicity, the bank sides of the matches and \<open>unmatchedBank\<close> together are the bank
  input; when no record occurs twice in the input array, no record is matched twice, none
  is both matched and unmatched, and none is lost. The same holds on the ledger side.
\<close>

theorem partition_property:
  assumes "bank < nextArray h" "ledger < nextArray h"
  shows "\<exists>h' r. reconcileTransactions h bank ledger = Inr (h', r) \<and>
           mset (map bankParams (matches r)) + mset (unmatchedBank r) = mset (arrays h bank) \<and>
           mset (map ledgerParams (matches r)) + mset (unmatchedLedger r)
             = mset (arrays h ledger) \<and>
           (distinct (arrays h bank) \<longrightarrow>
              distinct (map bankParams (matches r)) \<and>
              set (map bankParams (matches r)) \<inter> set (unmatchedBank r) = {} \<and>
              set (map bankParams (matches r)) \<union> set (unmatchedBank r) = set (arrays h bank)) \<and>
           (distinct (arrays h ledger) \<longrightarrow>
              distinct (map ledgerParams (matches r)) \<and>
              set (map ledgerParams (matches r)) \<inter> set (unmatchedLedger r) = {} \<and>
              set (map ledgerParams (matches r)) \<union> set (unmatchedLedger r)
                = set (arrays h ledger))"
proof -
  obtain M K P where
    s: "spec_reconcile (objs h) (arrays h bank) (arrays h ledger) = (M, K, P)" and
    r: "reconcileTransactions h bank ledger = Inr (poolsHeap h K P, makeReport h M K P)"
    using assms(2) by (rule reconcile_result)
  have mb: "mset (map bankParams M) + mset K = mset (arrays h bank)"
    and ml: "mset (map ledgerParams M) + mset P = mset (arrays h ledger)"
    by (rule spec_reconcile_pools [OF s])+
  show ?thesis
    using r mb ml partition_distinct [OF mb] partition_distinct [OF ml] by simp
qed

text \<open>On the sample data.\<close>

theorem partition_property_witness:
  "\<exists>h' r. reconcileTransactions sampleHeap 0 1 = Inr (h', r) \<and>
     mset (map bankParams (matches r)) + mset (unmatchedBank r) = mset [0, 1, 2, 3, 4, 5] \<and>
     mset (map ledgerParams (matches r)) + mset (unmatchedLedger r) = mset [6, 7, 8, 9, 10] \<and>
     distinct (map bankParams (matches r)) \<and>
     set (map bankParams (matches r)) \<inter> set (unmatchedBank r) = {} \<and>
     set (map bankParams (matches r)) \<union> set (unmatchedBank r) = set [0, 1, 2, 3, 4, 5] \<and>
     distinct (map ledgerParams (matches r)) \<and>
     set (map ledgerParams (matches r)) \<inter> set (unmatchedLedger r) = {} \<and>
     set (map ledgerParams (matches r)) \<union> set (unmatchedLedger r) = set [6, 7, 8, 9, 10]"
proof -
  have a: "(0::nat) < nextArray sampleHeap" "(1::nat) < nextArray sampleHeap"
    and b: "arrays sampleHeap 0 = [0, 1, 2, 3, 4, 5]" "arrays sampleHeap 1 = [6, 7, 8, 9, 10]"
    by (simp_all add: sampleHeap_def)
  have d: "distinct (arrays sampleHeap 0)" "distinct (arrays sampleHeap 1)"
    unfolding b by simp_all
  from partition_property [OF a] d show ?thesis
    unfolding b by blast
qed


section \<open>Pass 1 (C2)\<close>





section \<open>Pass 2 (C3)\<close>





section \<open>Pass 3 (C4)\<close>





section \<open>Pass precedence (C5)\<close>

text \<open>
  Claim C5. No pair that satisfies the criterion of Pass 1 is emitted by Pass 2 or Pass 3:
  the matches are the pairs of Pass 1 followed by pairs of confidence 0.9 or 0.7 that do
  not satisfy it. Pass 1 leaves no such pair in the pools; and when Pass 1 reaches a bank
  transaction while the ledger pool holds a transaction that satisfies the criterion with
  it, the bank transaction is claimed there, with a ledger transaction that satisfies the
  criterion.
\<close>

theorem pass_precedence:
  assumes "bank < nextArray h" "ledger < nextArray h"
  shows "(\<exists>h' r M1 M23. reconcileTransactions h bank ledger = Inr (h', r) \<and>
            matches r = M1 @ M23 \<and>
            (\<forall>m \<in> set M1. confidence m = 1 \<and>
               exactMatch (objs h) (bankParams m) (ledgerParams m)) \<and>
            (\<forall>m \<in> set M23. (confidence m = 0.9 \<or> confidence m = 0.7) \<and>
               \<not> exactMatch (objs h) (bankParams m) (ledgerParams m))) \<and>
         (ub \<noteq> ul \<longrightarrow>
            (\<exists>g1 M1. pass1 ub ul (g, ms) = Inr (g1, ms @ M1) \<and>
               (\<forall>b \<in> set (arrays g1 ub). \<forall>l \<in> set (arrays g1 ul).
                  \<not> exactMatch (objs g) b l))) \<and>
         (ub \<noteq> ul \<and> i < length (arrays g ub) \<and> l \<in> set (arrays g ul) \<and>
          exactMatch (objs g) (arrays g ub ! i) l \<longrightarrow>
            (\<exists>g' m. matchStep exactMatch 1 ''Exact match on Date, Amount, and Type''
                       ub ul i (g, ms) = Inr (g', ms @ [m]) \<and>
               bankParams m = arrays g ub ! i \<and> confidence m = 1 \<and>
               exactMatch (objs g) (bankParams m) (ledgerParams m) \<and>
               arrays g' ub = splice i (arrays g ub) \<and>
               arrays g' ul = remove1 (ledgerParams m) (arrays g ul)))"
  using later_not_exact [OF assms(2)] pass1_leaves_no_pair exact_step_claims
  by (intro conjI impI) blast+

text \<open>A bank transaction with a candidate within three days first and a candidate of the
  same day second in the ledger: the second is chosen, in Pass 1, and the first stays
  unmatched.\<close>

theorem pass_precedence_witness:
  "(\<exists>h' r M1 M23. reconcileTransactions precedenceHeap 0 1 = Inr (h', r) \<and>
      matches r = M1 @ M23 \<and>
      (\<forall>m \<in> set M1. confidence m = 1 \<and>
         exactMatch (objs precedenceHeap) (bankParams m) (ledgerParams m)) \<and>
      (\<forall>m \<in> set M23. (confidence m = 0.9 \<or> confidence m = 0.7) \<and>
         \<not> exactMatch (objs precedenceHeap) (bankParams m) (ledgerParams m))) \<and>
   (\<exists>g1 M1. pass1 0 1 (precedenceHeap, []) = Inr (g1, [] @ M1) \<and>
      (\<forall>b \<in> set (arrays g1 0). \<forall>l \<in> set (arrays g1 1).
         \<not> exactMatch (objs precedenceHeap) b l)) \<and>
   (\<exists>g' m. matchStep exactMatch 1 ''Exact match on Date, Amount, and Type''
              0 1 0 (precedenceHeap, []) = Inr (g', [] @ [m]) \<and>
      bankParams m = 0 \<and> confidence m = 1 \<and>
      exactMatch (objs precedenceHeap) (bankParams m) (ledgerParams m) \<and>
      arrays g' 0 = [] \<and>
      arrays g' 1 = remove1 (ledgerParams m) [1, 2]) \<and>
   reconcileTransactions precedenceHeap 0 1 =
     Inr (poolsHeap precedenceHeap [] [1],
          \<lparr>matches = [\<lparr>bankParams = 0, ledgerParams = 2, confidence = 1,
                        notes = Some ''Exact match on Date, Amount, and Type''\<rparr>],
           unmatchedBank = [], unmatchedLedger = [1],
           summary = \<lparr>totalMatchedAmount = 890, totalUnmatchedBankAmount = 0,
                      totalUnmatchedLedgerAmount = 890, matchCount = 1,
                      discrepancyCount = 1\<rparr>\<rparr>)"
proof -
  have ne: "(0::nat) \<noteq> 1" by simp
  note t = pass_precedence [OF precedence_arrays(3,4), of 0 1 precedenceHeap "[]" 0 2]
  have hyp: "(0::nat) \<noteq> 1 \<and> (0::nat) < length (arrays precedenceHeap 0) \<and>
             (2::nat) \<in> set (arrays precedenceHeap 1) \<and>
             exactMatch (objs precedenceHeap) (arrays precedenceHeap 0 ! 0) 2"
    unfolding precedence_arrays by (simp add: precedence_crit)
  have s: "splice 0 (arrays precedenceHeap 0) = []" "arrays precedenceHeap 0 ! 0 = 0"
    unfolding precedence_arrays by (simp_all add: splice_def)
  from t ne hyp precedence_reconcile show ?thesis
    unfolding s precedence_arrays(2) by (intro conjI) blast+
qed


section \<open>Amount conservation (C6)\<close>

text \<open>
  Claim C6. With exact arithmetic, \<open>totalMatchedAmount\<close> is the sum of the bank-side
  amounts of the matches, \<open>totalMatchedAmount + totalUnmatchedBankAmount\<close> is the sum of
  the amounts of the bank input, and the sum of the ledger-side amounts of the matches plus
  \<open>totalUnmatchedLedgerAmount\<close> is the sum of the amounts of the ledger input. With the
  bank-side total in its place the ledger identity holds up to 0.01 for each match.
\<close>

theorem amount_conservation:
  assumes "bank < nextArray h" "ledger < nextArray h"
  shows "\<exists>h' r. reconcileTransactions h bank ledger = Inr (h', r) \<and>
           totalMatchedAmount (summary r)
             = sum_list (map (\<lambda>m. amount (objs h (bankParams m))) (matches r)) \<and>
           totalMatchedAmount (summary r) + totalUnmatchedBankAmount (summary r)
             = sum_list (map (\<lambda>t. amount (objs h t)) (arrays h bank)) \<and>
           sum_list (map (\<lambda>m. amount (objs h (ledgerParams m))) (matches r))
               + totalUnmatchedLedgerAmount (summary r)
             = sum_list (map (\<lambda>t. amount (objs h t)) (arrays h ledger)) \<and>
           \<bar>totalMatchedAmount (summary r) + totalUnmatchedLedgerAmount (summary r)
               - sum_list (map (\<lambda>t. amount (objs h t)) (arrays h ledger))\<bar>
             \<le> 0.01 * real (matchCount (summary r))"
proof -
  obtain M K P where
    s: "spec_reconcile (objs h) (arrays h bank) (arrays h ledger) = (M, K, P)" and
    r: "reconcileTransactions h bank ledger = Inr (poolsHeap h K P, makeReport h M K P)"
    using assms(2) by (rule reconcile_result)
  let ?a = "\<lambda>t. amount (objs h t)"
  let ?r = "makeReport h M K P"
  have mb: "mset (map bankParams M) + mset K = mset (arrays h bank)"
    and ml: "mset (map ledgerParams M) + mset P = mset (arrays h ledger)"
    by (rule spec_reconcile_pools [OF s])+
  have tb: "sum_list (map (\<lambda>m. ?a (bankParams m)) M) + sum_list (map ?a K)
              = sum_list (map ?a (arrays h bank))"
    using sum_list_partition [OF mb, of ?a] by (simp add: comp_def)
  have tl: "sum_list (map (\<lambda>m. ?a (ledgerParams m)) M) + sum_list (map ?a P)
              = sum_list (map ?a (arrays h ledger))"
    using sum_list_partition [OF ml, of ?a] by (simp add: comp_def)
  have "\<forall>m \<in> set M. \<bar>?a (ledgerParams m) - ?a (bankParams m)\<bar> < 0.01"
    using matches_amountMatch [OF s] amountMatch_tolerance by blast
  then have "\<bar>sum_list (map (\<lambda>m. ?a (bankParams m)) M)
               - sum_list (map (\<lambda>m. ?a (ledgerParams m)) M)\<bar> \<le> 0.01 * real (length M)"
    by (rule amount_drift)
  with tl have dr: "\<bar>sum_list (map (\<lambda>m. ?a (bankParams m)) M) + sum_list (map ?a P)
               - sum_list (map ?a (arrays h ledger))\<bar> \<le> 0.01 * real (length M)"
    by linarith
  have "totalMatchedAmount (summary ?r)
             = sum_list (map (\<lambda>m. amount (objs h (bankParams m))) (matches ?r)) \<and>
           totalMatchedAmount (summary ?r) + totalUnmatchedBankAmount (summary ?r)
             = sum_list (map (\<lambda>t. amount (objs h t)) (arrays h bank)) \<and>
           sum_list (map (\<lambda>m. amount (objs h (ledgerParams m))) (matches ?r))
               + totalUnmatchedLedgerAmount (summary ?r)
             = sum_list (map (\<lambda>t. amount (objs h t)) (arrays h ledger)) \<and>
           \<bar>totalMatchedAmount (summary ?r) + totalUnmatchedLedgerAmount (summary ?r)
               - sum_list (map (\<lambda>t. amount (objs h t)) (arrays h ledger))\<bar>
             \<le> 0.01 * real (matchCount (summary ?r))"
    using tb tl dr by (simp add: makeReport_totals)
  with r show ?thesis by blast
qed

text \<open>On the sample data: 18215.70 on the bank side, 19335.50 on the ledger side.\<close>

theorem amount_conservation_witness:
  "\<exists>h' r. reconcileTransactions sampleHeap 0 1 = Inr (h', r) \<and>
     totalMatchedAmount (summary r)
       = sum_list (map (\<lambda>m. amount (objs sampleHeap (bankParams m))) (matches r)) \<and>
     totalMatchedAmount (summary r) + totalUnmatchedBankAmount (summary r) = 18215.7 \<and>
     sum_list (map (\<lambda>m. amount (objs sampleHeap (ledgerParams m))) (matches r))
         + totalUnmatchedLedgerAmount (summary r) = 19335.5 \<and>
     \<bar>totalMatchedAmount (summary r) + totalUnmatchedLedgerAmount (summary r) - 19335.5\<bar>
       \<le> 0.01 * real (matchCount (summary r))"
proof -
  have b: "sum_list (map (\<lambda>t. amount (objs sampleHeap t)) (arrays sampleHeap 0)) = 18215.7"
    and l: "sum_list (map (\<lambda>t. amount (objs sampleHeap t)) (arrays sampleHeap 1)) = 19335.5"
    by (simp_all add: sampleHeap_def SAMPLE_BANK_DATA_def SAMPLE_LEDGER_DATA_def)
  show ?thesis
    using amount_conservation [OF sample_arrays(3,4)] unfolding b l .
qed


section \<open>Order of the matches (C7)\<close>

text \<open>
  Claim C7. The matches are the pairs of Pass 1, then those of Pass 2, then those of
  Pass 3, and within each pass the bank sides follow the bank input backwards.
\<close>

theorem matches_order:
  assumes "bank < nextArray h" "ledger < nextArray h"
  shows "\<exists>h' r M1 M2 M3. reconcileTransactions h bank ledger = Inr (h', r) \<and>
           matches r = M1 @ M2 @ M3 \<and>
           (\<forall>m \<in> set M1. confidence m = 1 \<and>
              notes m = Some ''Exact match on Date, Amount, and Type'') \<and>
           (\<forall>m \<in> set M2. confidence m = 0.9 \<and>
              notes m = Some ''Match on Amount/Type within 3 days'') \<and>
           (\<forall>m \<in> set M3. confidence m = 0.7 \<and>
              notes m = Some ''Match on Amount and similar Description'') \<and>
           subseq (map bankParams M1) (rev (arrays h bank)) \<and>
           subseq (map bankParams M2) (rev (arrays h bank)) \<and>
           subseq (map bankParams M3) (rev (arrays h bank))"
proof -
  obtain M K P where
    s: "spec_reconcile (objs h) (arrays h bank) (arrays h ledger) = (M, K, P)" and
    r: "reconcileTransactions h bank ledger = Inr (poolsHeap h K P, makeReport h M K P)"
    using assms(2) by (rule reconcile_result)
  from s obtain M1 M2 M3 where M: "M = M1 @ M2 @ M3"
    and sub: "subseq (map bankParams M1) (rev (arrays h bank))"
      "subseq (map bankParams M2) (rev (arrays h bank))"
      "subseq (map bankParams M3) (rev (arrays h bank))"
    and 1: "\<forall>m \<in> set M1. confidence m = 1 \<and>
       notes m = Some ''Exact match on Date, Amount, and Type'' \<and>
       exactMatch (objs h) (bankParams m) (ledgerParams m)"
    and 2: "\<forall>m \<in> set M2. confidence m = 0.9 \<and>
       notes m = Some ''Match on Amount/Type within 3 days'' \<and>
       fuzzyMatch (objs h) (bankParams m) (ledgerParams m)"
    and 3: "\<forall>m \<in> set M3. confidence m = 0.7 \<and>
       notes m = Some ''Match on Amount and similar Description'' \<and>
       descMatch (objs h) (bankParams m) (ledgerParams m)"
    by (rule spec_reconcile_split)
  have "reconcileTransactions h bank ledger = Inr (poolsHeap h K P, makeReport h M K P) \<and>
           matches (makeReport h M K P) = M1 @ M2 @ M3 \<and>
           (\<forall>m \<in> set M1. confidence m = 1 \<and>
              notes m = Some ''Exact match on Date, Amount, and Type'') \<and>
           (\<forall>m \<in> set M2. confidence m = 0.9 \<and>
              notes m = Some ''Match on Amount/Type within 3 days'') \<and>
           (\<forall>m \<in> set M3. confidence m = 0.7 \<and>
              notes m = Some ''Match on Amount and similar Description'') \<and>
           subseq (map bankParams M1) (rev (arrays h bank)) \<and>
           subseq (map bankParams M2) (rev (arrays h bank)) \<and>
           subseq (map bankParams M3) (rev (arrays h bank))"
    using r M sub 1 2 3 by simp
  then show ?thesis by blast
qed

text \<open>On the sample data.\<close>

theorem matches_order_witness:
  "\<exists>h' r M1 M2 M3. reconcileTransactions sampleHeap 0 1 = Inr (h', r) \<and>
     matches r = M1 @ M2 @ M3 \<and>
     (\<forall>m \<in> set M1. confidence m = 1 \<and>
        notes m = Some ''Exact match on Date, Amount, and Type'') \<and>
     (\<forall>m \<in> set M2. confidence m = 0.9 \<and>
        notes m = Some ''Match on Amount/Type within 3 days'') \<and>
     (\<forall>m \<in> set M3. confidence m = 0.7 \<and>
        notes m = Some ''Match on Amount and similar Description'') \<and>
     subseq (map bankParams M1) [5, 4, 3, 2, 1, 0] \<and>
     subseq (map bankParams M2) [5, 4, 3, 2, 1, 0] \<and>
     subseq (map bankParams M3) [5, 4, 3, 2, 1, 0]"
proof -
  have r: "rev (arrays sampleHeap 0) = [5, 4, 3, 2, 1, 0]"
    unfolding sample_arrays by simp
  show ?thesis
    using matches_order [OF sample_arrays(3,4)] unfolding r .
qed


section \<open>Order of the unmatched transactions (C8)\<close>

text \<open>
  Claim C8. \<open>unmatchedBank\<close> is a subsequence of the bank input, and what it holds is
  the input without the bank sides of the matches; when no record occurs twice in the
  input it is the input filtered to the records no match claims. The same holds for
  \<open>unmatchedLedger\<close> and the ledger input.
\<close>

theorem unmatched_order:
  assumes "bank < nextArray h" "ledger < nextArray h"
  shows "\<exists>h' r. reconcileTransactions h bank ledger = Inr (h', r) \<and>
           subseq (unmatchedBank r) (arrays h bank) \<and>
           subseq (unmatchedLedger r) (arrays h ledger) \<and>
           mset (unmatchedBank r) = mset (arrays h bank) - mset (map bankParams (matches r)) \<and>
           mset (unmatchedLedger r)
             = mset (arrays h ledger) - mset (map ledgerParams (matches r)) \<and>
           (distinct (arrays h bank) \<longrightarrow>
              unmatchedBank r
                = filter (\<lambda>t. t \<notin> set (map bankParams (matches r))) (arrays h bank)) \<and>
           (distinct (arrays h ledger) \<longrightarrow>
              unmatchedLedger r
                = filter (\<lambda>t. t \<notin> set (map ledgerParams (matches r))) (arrays h ledger))"
proof -
  obtain M K P where
    s: "spec_reconcile (objs h) (arrays h bank) (arrays h ledger) = (M, K, P)" and
    r: "reconcileTransactions h bank ledger = Inr (poolsHeap h K P, makeReport h M K P)"
    using assms(2) by (rule reconcile_result)
  have sb: "subseq K (arrays h bank)" and sl: "subseq P (arrays h ledger)"
    and mb: "mset (map bankParams M) + mset K = mset (arrays h bank)"
    and ml: "mset (map ledgerParams M) + mset P = mset (arrays h ledger)"
    by (rule spec_reconcile_pools [OF s])+
  have db: "mset K = mset (arrays h bank) - mset (map bankParams M)"
    unfolding mb [symmetric] by simp
  have dl: "mset P = mset (arrays h ledger) - mset (map ledgerParams M)"
    unfolding ml [symmetric] by simp
  have fb: "K = filter (\<lambda>t. t \<notin> set (map bankParams M)) (arrays h bank)"
    if "distinct (arrays h bank)"
    using sb that mb by (rule unmatched_filter)
  have fl: "P = filter (\<lambda>t. t \<notin> set (map ledgerParams M)) (arrays h ledger)"
    if "distinct (arrays h ledger)"
    using sl that ml by (rule unmatched_filter)
  show ?thesis
    using r sb sl db dl fb fl by simp
qed

text \<open>On the sample data.\<close>

theorem unmatched_order_witness:
  "\<exists>h' r. reconcileTransactions sampleHeap 0 1 = Inr (h', r) \<and>
     subseq (unmatchedBank r) [0, 1, 2, 3, 4, 5] \<and>
     subseq (unmatchedLedger r) [6, 7, 8, 9, 10] \<and>
     mset (unmatchedBank r) = mset [0, 1, 2, 3, 4, 5] - mset (map bankParams (matches r)) \<and>
     mset (unmatchedLedger r) = mset [6, 7, 8, 9, 10] - mset (map ledgerParams (matches r)) \<and>
     unmatchedBank r = filter (\<lambda>t. t \<notin> set (map bankParams (matches r))) [0, 1, 2, 3, 4, 5] \<and>
     unmatchedLedger r
       = filter (\<lambda>t. t \<notin> set (map ledgerParams (matches r))) [6, 7, 8, 9, 10]"
proof -
  have d: "distinct (arrays sampleHeap 0)" "distinct (arrays sampleHeap 1)"
    unfolding sample_arrays by simp_all
  from unmatched_order [OF sample_arrays(3,4)] d show ?thesis
    unfolding sample_arrays by blast
qed


section \<open>Normal return and empty input (C9)\<close>

text \<open>
  Claim C9. For two arrays of the heap the function returns a report and never throws;
  for two empty arrays the report has no matches, no unmatched transactions and a summary
  of zeros.
\<close>

theorem never_throws:
  assumes "bank < nextArray h" "ledger < nextArray h"
  shows "(\<exists>h' r. reconcileTransactions h bank ledger = Inr (h', r)) \<and>
         (arrays h bank = [] \<and> arrays h ledger = [] \<longrightarrow>
            (\<exists>h'. reconcileTransactions h bank ledger =
               Inr (h', \<lparr>matches = [], unmatchedBank = [], unmatchedLedger = [],
                         summary = \<lparr>totalMatchedAmount = 0, totalUnmatchedBankAmount = 0,
                                    totalUnmatchedLedgerAmount = 0, matchCount = 0,
                                    discrepancyCount = 0\<rparr>\<rparr>)))"
proof
  obtain M K P where
    "reconcileTransactions h bank ledger = Inr (poolsHeap h K P, makeReport h M K P)"
    using assms(2) by (rule reconcile_result)
  then show "\<exists>h' r. reconcileTransactions h bank ledger = Inr (h', r)" by blast
next
  show "arrays h bank = [] \<and> arrays h ledger = [] \<longrightarrow>
            (\<exists>h'. reconcileTransactions h bank ledger =
               Inr (h', \<lparr>matches = [], unmatchedBank = [], unmatchedLedger = [],
                         summary = \<lparr>totalMatchedAmount = 0, totalUnmatchedBankAmount = 0,
                                    totalUnmatchedLedgerAmount = 0, matchCount = 0,
                                    discrepancyCount = 0\<rparr>\<rparr>))"
    using reconcile_spec [OF assms(2), of bank]
    by (simp add: spec_reconcile_def makeReport_def)
qed

text \<open>On two empty arrays.\<close>

theorem never_throws_witness:
  "(\<exists>h' r. reconcileTransactions emptyHeap 0 1 = Inr (h', r)) \<and>
   (\<exists>h'. reconcileTransactions emptyHeap 0 1 =
      Inr (h', \<lparr>matches = [], unmatchedBank = [], unmatchedLedger = [],
                summary = \<lparr>totalMatchedAmount = 0, totalUnmatchedBankAmount = 0,
                           totalUnmatchedLedgerAmount = 0, matchCount = 0,
                           discrepancyCount = 0\<rparr>\<rparr>))"
  using never_throws [OF empty_arrays(3,4)] empty_arrays(1,2) by blast


section \<open>Frame (C10)\<close>

text \<open>
  Claim C10. The function writes to no transaction record and to no array that existed
  before the call, so both input arrays are unchanged; and every reference in the report
  is an element of the input array of its side.
\<close>

theorem inputs_unchanged:
  assumes "bank < nextArray h" "ledger < nextArray h"
  shows "\<exists>h' r. reconcileTransactions h bank ledger = Inr (h', r) \<and>
           objs h' = objs h \<and>
           (\<forall>a < nextArray h. arrays h' a = arrays h a) \<and>
           arrays h' bank = arrays h bank \<and>
           arrays h' ledger = arrays h ledger \<and>
           set (map bankParams (matches r)) \<union> set (unmatchedBank r) \<subseteq> set (arrays h bank) \<and>
           set (map ledgerParams (matches r)) \<union> set (unmatchedLedger r)
             \<subseteq> set (arrays h ledger)"
proof -
  obtain M K P where
    s: "spec_reconcile (objs h) (arrays h bank) (arrays h ledger) = (M, K, P)" and
    r: "reconcileTransactions h bank ledger = Inr (poolsHeap h K P, makeReport h M K P)"
    using assms(2) by (rule reconcile_result)
  have mb: "mset (map bankParams M) + mset K = mset (arrays h bank)"
    and ml: "mset (map ledgerParams M) + mset P = mset (arrays h ledger)"
    by (rule spec_reconcile_pools [OF s])+
  from mb have "mset (map bankParams M @ K) = mset (arrays h bank)" by simp
  then have b: "set (map bankParams M @ K) = set (arrays h bank)" by (rule mset_eq_setD)
  from ml have "mset (map ledgerParams M @ P) = mset (arrays h ledger)" by simp
  then have l: "set (map ledgerParams M @ P) = set (arrays h ledger)" by (rule mset_eq_setD)
  show ?thesis
    using r assms b l by (intro exI [of _ "poolsHeap h K P"] exI [of _ "makeReport h M K P"]) simp
qed

text \<open>On the sample data.\<close>

theorem inputs_unchanged_witness:
  "\<exists>h' r. reconcileTransactions sampleHeap 0 1 = Inr (h', r) \<and>
     objs h' = objs sampleHeap \<and>
     (\<forall>a < nextArray sampleHeap. arrays h' a = arrays sampleHeap a) \<and>
     arrays h' 0 = [0, 1, 2, 3, 4, 5] \<and>
     arrays h' 1 = [6, 7, 8, 9, 10] \<and>
     set (map bankParams (matches r)) \<union> set (unmatchedBank r) \<subseteq> set [0, 1, 2, 3, 4, 5] \<and>
     set (map ledgerParams (matches r)) \<union> set (unmatchedLedger r) \<subseteq> set [6, 7, 8, 9, 10]"
  using inputs_unchanged [OF sample_arrays(3,4)] unfolding sample_arrays .

end
